theory Spec2Isabelle
  imports Complex_Main "HOL-Library.Sublist"
begin

section \<open>JavaScript strings and the library calls the scripts use\<close>

text \<open>
  A JavaScript string is a sequence of UTF-16 code units. The model is \<^typ>\<open>string\<close>, a list
  of \<^typ>\<open>char\<close>, and so covers the strings all of whose code units are below 256 (ASCII and
  the Latin-1 supplement). On these \<open>String.prototype.toLowerCase\<close> works unit by unit:
  \<open>A\<close>..\<open>Z\<close> and the capital letters \<open>0xC0\<close>..\<open>0xDE\<close> (without the multiplication sign
  \<open>0xD7\<close>) move up by 32, every other unit stays.
\<close>

definition toLowerChar :: "char \<Rightarrow> char" where
  "toLowerChar c =
     (let n = (of_char c :: nat)
      in if (65 \<le> n \<and> n \<le> 90) \<or> (192 \<le> n \<and> n \<le> 222 \<and> n \<noteq> 215)
         then char_of (n + 32) else c)"

definition toLowerCase :: "string \<Rightarrow> string" where
  "toLowerCase s = map toLowerChar s"

text \<open>\<open>s.includes(t)\<close>: \<open>t\<close> occurs in \<open>s\<close> as a contiguous substring.\<close>

fun includes_str :: "string \<Rightarrow> string \<Rightarrow> bool" where
  "includes_str [] t = (t = [])"
| "includes_str (x # xs) t = (prefix t (x # xs) \<or> includes_str xs t)"

text \<open>\<open>arr.includes(x)\<close> on an array of strings.\<close>

definition includes_arr :: "string list \<Rightarrow> string \<Rightarrow> bool" where
  "includes_arr arr x = (x \<in> set arr)"

subsection \<open>\<open>path.extname\<close>\<close>

text \<open>
  Node's POSIX \<open>path.extname\<close> scans the path from its last character to its first. It
  records the end of the last path component (\<open>end\<close>), the right-most dot of that component
  (\<open>startDot\<close>), where the component starts (\<open>startPart\<close>), and in \<open>preDotState\<close> what it
  saw to the left of that dot: \<open>0\<close> nothing, \<open>1\<close> a dot last, \<open>-1\<close> another character last.
  The value \<open>-1\<close> of \<open>startDot\<close> and \<open>end\<close> is \<open>None\<close> here.
\<close>

record ext_state =
  startDot :: "nat option"
  startPart :: nat
  endPos :: "nat option"
  matchedSlash :: bool
  preDotState :: int

definition ext_init :: ext_state where
  "ext_init = \<lparr>startDot = None, startPart = 0, endPos = None, matchedSlash = True, preDotState = 0\<rparr>"

text \<open>
  The loop \<open>for (i = path.length - 1; i >= 0; --i)\<close>. The first argument holds the characters
  \<open>path[i], path[i-1], ..., path[0]\<close> still to be visited, so \<open>i\<close> is the length of its tail.
\<close>

fun extname_loop :: "string \<Rightarrow> ext_state \<Rightarrow> ext_state" where
  "extname_loop [] s = s"
| "extname_loop (code # rest) s =
     (let i = length rest in
      if code = CHR ''/'' then
        (if \<not> matchedSlash s then s\<lparr>startPart := i + 1\<rparr>
         else extname_loop rest s)
      else
        (let s1 = (if endPos s = None then s\<lparr>endPos := Some (i + 1), matchedSlash := False\<rparr> else s);
             s2 = (if code = CHR ''.'' then
                     (if startDot s1 = None then s1\<lparr>startDot := Some i\<rparr>
                      else if preDotState s1 \<noteq> 1 then s1\<lparr>preDotState := 1\<rparr>
                      else s1)
                   else if startDot s1 \<noteq> None then s1\<lparr>preDotState := - 1\<rparr>
                   else s1)
         in extname_loop rest s2))"

definition slice :: "string \<Rightarrow> nat \<Rightarrow> nat \<Rightarrow> string" where
  "slice s from to = take (to - from) (drop from s)"

definition extname :: "string \<Rightarrow> string" where
  "extname path =
     (let s = extname_loop (rev path) ext_init in
      case (startDot s, endPos s) of
        (Some d, Some e) \<Rightarrow>
          if preDotState s = 0 \<or> (preDotState s = 1 \<and> d + 1 = e \<and> d = startPart s + 1)
          then [] else slice path d e
      | _ \<Rightarrow> [])"

section \<open>The ingestion pipeline: classification\<close>

record file_record =
  filename :: string
  ext :: string
  ftype :: string
  category :: string

definition type_of_ext :: "string \<Rightarrow> string" where
  "type_of_ext e =
     (if includes_arr [''.md'', ''.mdx'', ''.txt''] e then ''markdown''
      else if includes_arr [''.docx'', ''.doc''] e then ''document''
      else if includes_arr [''.xlsx'', ''.xls'', ''.csv''] e then ''spreadsheet''
      else if includes_arr [''.pptx'', ''.ppt''] e then ''presentation''
      else if e = ''.pdf'' then ''pdf''
      else if includes_arr [''.png'', ''.jpg'', ''.jpeg'', ''.svg'', ''.gif''] e then ''image''
      else ''unknown'')"

definition category_of :: "string \<Rightarrow> string" where
  "category_of nameLower =
     (if includes_str nameLower ''exec'' \<or> includes_str nameLower ''summary'' then ''overview''
      else if includes_str nameLower ''financial'' \<or> includes_str nameLower ''revenue'' then ''financials''
      else if includes_str nameLower ''team'' \<or> includes_str nameLower ''org'' then ''team''
      else if includes_str nameLower ''product'' \<or> includes_str nameLower ''roadmap'' then ''product''
      else if includes_str nameLower ''market'' \<or> includes_str nameLower ''competitor'' then ''market''
      else if includes_str nameLower ''legal'' \<or> includes_str nameLower ''term'' then ''legal''
      else if includes_str nameLower ''deck'' \<or> includes_str nameLower ''pitch'' then ''pitch''
      else ''appendix'')"

text \<open>The body of the \<open>files.map\<close> callback of \<open>classifyFiles\<close>.\<close>

definition classifyFile :: "string \<Rightarrow> file_record" where
  "classifyFile f =
     (let e = toLowerCase (extname f);
          t = type_of_ext e;
          nameLower = toLowerCase f;
          c = category_of nameLower
      in \<lparr>filename = f, ext = e, ftype = t, category = c\<rparr>)"

text \<open>
  What the scripts find at a path they list: nothing, something that is not a directory
  (\<open>existsSync\<close> holds and \<open>readdirSync\<close> throws), or a directory with its entries. For
  \<open>classifyFiles\<close> the entries of the path \<open>raw\<close> are file names.
\<close>

datatype 'e dir = Missing | NotADirectory | Directory "'e list"

type_synonym raw_dir = "string dir"

datatype io_error = ENOTDIR | ENOENT | SyntaxError

definition existsSync :: "'e dir \<Rightarrow> bool" where
  "existsSync d = (d \<noteq> Missing)"

fun readdirSync :: "'e dir \<Rightarrow> io_error + 'e list" where
  "readdirSync Missing = Inl ENOENT"
| "readdirSync NotADirectory = Inl ENOTDIR"
| "readdirSync (Directory files) = Inr files"

definition classifyFiles :: "raw_dir \<Rightarrow> io_error + file_record list" where
  "classifyFiles rawDir =
     (if \<not> existsSync rawDir then Inr []
      else case readdirSync rawDir of
             Inl e \<Rightarrow> Inl e
           | Inr files \<Rightarrow> Inr (map classifyFile files))"

section \<open>The ingestion pipeline: arguments and metadata\<close>

subsection \<open>More string operations\<close>

text \<open>
  \<open>s.split(sep)\<close> with a string separator: the occurrences of \<open>sep\<close> are found from left to
  right without overlap, \<open>cur\<close> holds (reversed) the piece read since the last occurrence.
  With the empty separator the pieces are the code units.
\<close>

function split_from :: "string \<Rightarrow> string \<Rightarrow> string \<Rightarrow> string list" where
  "split_from sep cur [] = [rev cur]"
| "split_from sep cur (c # cs) =
     (if sep \<noteq> [] \<and> prefix sep (c # cs)
      then rev cur # split_from sep [] (drop (length sep) (c # cs))
      else split_from sep (c # cur) cs)"
  by pat_completeness auto
termination
  by (relation "measure (\<lambda>(sep, cur, s). length s)") auto

definition split_str :: "string \<Rightarrow> string \<Rightarrow> string list" where
  "split_str s sep = (if sep = [] then map (\<lambda>c. [c]) s else split_from sep [] s)"

text \<open>\<open>arr[i]\<close>: \<open>None\<close> is \<open>undefined\<close>.\<close>

definition index :: "'a list \<Rightarrow> nat \<Rightarrow> 'a option" where
  "index arr i = (if i < length arr then Some (arr ! i) else None)"

text \<open>\<open>arr.join(sep)\<close>.\<close>

fun join_str :: "string list \<Rightarrow> string \<Rightarrow> string" where
  "join_str [] sep = []"
| "join_str [x] sep = x"
| "join_str (x # y # ys) sep = x @ sep @ join_str (y # ys) sep"

definition is_lower_alnum :: "char \<Rightarrow> bool" where
  "is_lower_alnum c =
     (let n = (of_char c :: nat) in (97 \<le> n \<and> n \<le> 122) \<or> (48 \<le> n \<and> n \<le> 57))"

text \<open>\<open>s.replace(/[^a-z0-9-]/g, '-')\<close>: every unit outside the class becomes a hyphen.\<close>

definition replace_non_slug :: "string \<Rightarrow> string" where
  "replace_non_slug s = map (\<lambda>c. if is_lower_alnum c \<or> c = CHR ''-'' then c else CHR ''-'') s"

text \<open>\<open>s.replace(/[^a-z0-9]+/g, '-')\<close>: every maximal run of units outside the class becomes
  one hyphen.\<close>

function replace_non_alnum_runs :: "string \<Rightarrow> string" where
  "replace_non_alnum_runs [] = []"
| "replace_non_alnum_runs (c # cs) =
     (if is_lower_alnum c then c # replace_non_alnum_runs cs
      else CHR ''-'' # replace_non_alnum_runs (dropWhile (\<lambda>d. \<not> is_lower_alnum d) cs))"
  by pat_completeness auto
termination
  by (relation "measure length") (auto simp: less_Suc_eq_le length_dropWhile_le)

text \<open>
  \<open>s.replace(/\.[^/.]+$/, '')\<close>: the left-most dot that is followed, up to the end of the
  string, by one or more units other than \<open>/\<close> and \<open>.\<close> is removed with all that follows it.
\<close>

fun strip_extension :: "string \<Rightarrow> string" where
  "strip_extension [] = []"
| "strip_extension (c # cs) =
     (if c = CHR ''.'' \<and> cs \<noteq> [] \<and> list_all (\<lambda>d. d \<noteq> CHR ''/'' \<and> d \<noteq> CHR ''.'') cs then []
      else c # strip_extension cs)"

text \<open>
  \<open>toUpperCase\<close> on the units below 256: \<open>a\<close>..\<open>z\<close> and \<open>0xE0\<close>..\<open>0xFE\<close> (without the
  division sign \<open>0xF7\<close>) move down by 32 and the sharp s becomes \<open>SS\<close>. The capitals of the
  micro sign and of y with diaeresis lie above 255; they are left as they are here, and the
  script applies \<open>toUpperCase\<close> to characters of the sanitised slug only.
\<close>

definition toUpperChar :: "char \<Rightarrow> string" where
  "toUpperChar c =
     (let n = (of_char c :: nat)
      in if (97 \<le> n \<and> n \<le> 122) \<or> (224 \<le> n \<and> n \<le> 254 \<and> n \<noteq> 247) then [char_of (n - 32)]
         else if n = 223 then ''SS'' else [c])"

definition toUpperCase :: "string \<Rightarrow> string" where
  "toUpperCase s = concat (map toUpperChar s)"

text \<open>Decimal printing of a number in a template literal.\<close>

fun showNat :: "nat \<Rightarrow> string" where
  "showNat n = (if n < 10 then [char_of (48 + n)] else showNat (n div 10) @ [char_of (48 + n mod 10)])"

text \<open>\<open>[...new Set(arr)]\<close>: a \<open>Set\<close> keeps its elements in insertion order and ignores the
  insertion of an element it has.\<close>

definition Set_add :: "'a list \<Rightarrow> 'a \<Rightarrow> 'a list" where
  "Set_add acc x = (if x \<in> set acc then acc else acc @ [x])"

definition new_Set :: "'a list \<Rightarrow> 'a list" where
  "new_Set arr = foldl Set_add [] arr"

subsection \<open>Command-line arguments\<close>

text \<open>The entries \<open>drive\<close>, \<open>slug\<close> and \<open>visibility\<close> of \<open>args\<close>; \<open>None\<close> is \<open>undefined\<close>.\<close>

record args =
  arg_drive :: "string option"
  arg_slug :: "string option"
  arg_visibility :: "string option"

definition falsy :: "string option \<Rightarrow> bool" where
  "falsy v = (v = None \<or> v = Some [])"

text \<open>\<open>DRIVE_ID\<close>; \<open>None\<close> when an indexed piece is \<open>undefined\<close>.\<close>

definition DRIVE_ID :: "string \<Rightarrow> string option" where
  "DRIVE_ID drive =
     (if includes_str drive ''folders/''
      then (case index (split_str drive ''folders/'') 1 of
              None \<Rightarrow> None
            | Some part \<Rightarrow> index (split_str part ''?'') 0)
      else Some drive)"

definition SLUG :: "string \<Rightarrow> string" where
  "SLUG slug_arg = replace_non_slug (toLowerCase slug_arg)"

definition VISIBILITY :: "string option \<Rightarrow> string" where
  "VISIBILITY v = (if falsy v then ''investor'' else the v)"

subsection \<open>Metadata\<close>

record metadata =
  slug :: string
  name :: string
  visibility :: string
  status :: string
  tags :: "string list"
  createdAt :: string
  updatedAt :: string
  version :: string
  fileCount :: nat
  categories :: "string list"
  driveFolder :: string

definition capitalize :: "string \<Rightarrow> string" where
  "capitalize w = toUpperCase (take 1 w) @ drop 1 w"

definition display_name :: "string \<Rightarrow> string" where
  "display_name sl = join_str (map capitalize (split_str sl ''-'')) '' ''"

text \<open>
  The record that \<open>generateMetadata\<close> builds and returns. \<open>now1\<close> and \<open>now2\<close> are the
  results of its two evaluations of \<open>new Date().toISOString()\<close>; the globals \<open>SLUG\<close>,
  \<open>VISIBILITY\<close> and \<open>DRIVE_ID\<close> are arguments. Its \<open>writeFileSync\<close> is \<open>writeMetadata\<close>
  below.
\<close>

definition generateMetadata ::
    "string \<Rightarrow> string \<Rightarrow> string \<Rightarrow> string \<Rightarrow> string \<Rightarrow> file_record list \<Rightarrow> metadata" where
  "generateMetadata sl vis drive_id now1 now2 classified =
     \<lparr>slug = sl,
      name = display_name sl,
      visibility = vis,
      status = ''active'',
      tags = [],
      createdAt = now1,
      updatedAt = now2,
      version = ''1.0'',
      fileCount = length classified,
      categories = new_Set (map category classified),
      driveFolder = drive_id\<rparr>"

section \<open>The ingestion pipeline: generated pages\<close>

text \<open>
  A template literal is written as the list of its lines, each closed by a line feed. The
  em dash of the titles (U+2014) is no code unit below 256; the pages take it as the
  parameter \<open>dash\<close>. \<open>date_of now\<close> is \<open>now.split('T')[0]\<close> inside a template, where
  \<open>undefined\<close> would print as such.
\<close>

definition unlines :: "string list \<Rightarrow> string" where
  "unlines ls = concat (map (\<lambda>l. l @ ''\<newline>'') ls)"

definition date_of :: "string \<Rightarrow> string" where
  "date_of now = (case index (split_str now ''T'') 0 of None \<Rightarrow> ''undefined'' | Some d \<Rightarrow> d)"

definition index_row :: "file_record \<Rightarrow> string" where
  "index_row f = ''| '' @ filename f @ '' | '' @ category f @ '' | '' @ ftype f @ '' |''"

definition index_rows :: "file_record list \<Rightarrow> string" where
  "index_rows classified = join_str (map index_row classified) ''\<newline>''"

definition index_header :: "string \<Rightarrow> metadata \<Rightarrow> string list" where
  \<open>index_header dash m =
     [''---'',
      ''title: "'' @ name m @ '' '' @ dash @ '' Data Room"'',
      ''---'',
      [],
      ''# '' @ name m,
      [],
      ''import { MetricCards } from '../../../components/MetricCards'' @ [CHR 0x27],
      [],
      ''<MetricCards metrics={['',
      ''  { label: "Status", value: "'' @ status m @ ''" },'',
      ''  { label: "Visibility", value: "'' @ visibility m @ ''" },'',
      ''  { label: "Documents", value: "'' @ showNat (fileCount m) @ ''" },'',
      ''  { label: "Version", value: "v'' @ version m @ ''" }'',
      '']} />'',
      [],
      ''---'',
      [],
      ''## Documents'',
      [],
      ''| Document | Category | Type |'',
      ''|----------|----------|------|'']\<close>

definition index_footer :: "string \<Rightarrow> string \<Rightarrow> string list" where
  "index_footer drive_id now =
     [ [],
      ''---'',
      [],
      ''> This data room was auto-generated by Docs OS on '' @ date_of now @ ''.'',
      ''> Source: Google Drive folder `'' @ drive_id @ ''`'']"

definition indexMdx :: "string \<Rightarrow> string \<Rightarrow> string \<Rightarrow> metadata \<Rightarrow> file_record list \<Rightarrow> string" where
  "indexMdx dash drive_id now m classified =
     unlines (index_header dash m @ [index_rows classified] @ index_footer drive_id now)"

text \<open>The navigation manifest \<open>_meta.ts\<close>.\<close>

definition nav_eligible :: "file_record \<Rightarrow> bool" where
  "nav_eligible f = (ftype f = ''markdown'' \<or> ftype f = ''document'')"

definition nav_slug :: "string \<Rightarrow> string" where
  "nav_slug fl = replace_non_alnum_runs (toLowerCase (strip_extension fl))"

definition nav_name :: "string \<Rightarrow> string" where
  "nav_name fl = strip_extension fl"

definition nav_line :: "file_record \<Rightarrow> string" where
  "nav_line f = ''  '' @ [CHR 0x27] @ nav_slug (filename f) @ [CHR 0x27] @ '': ''
                @ [CHR 0x27] @ nav_name (filename f) @ [CHR 0x27] @ '',''"

definition metaTs :: "file_record list \<Rightarrow> string" where
  "metaTs classified = unlines
     [''export default {'',
      ''  index: 'Overview','',
      join_str (map nav_line (filter nav_eligible classified)) ''\<newline>'',
      ''  appendix: 'Downloads & Appendix','',
      ''}'']"

definition appendix_row :: "string \<Rightarrow> file_record \<Rightarrow> string" where
  "appendix_row sl f = ''| '' @ filename f @ '' | '' @ ftype f @ '' | '' @ category f
     @ '' | [Download](/projects/'' @ sl @ ''/assets/'' @ filename f @ '') |''"

definition appendix_rows :: "string \<Rightarrow> file_record list \<Rightarrow> string" where
  "appendix_rows sl classified = join_str (map (appendix_row sl) classified) ''\<newline>''"

definition appendix_header :: "metadata \<Rightarrow> string list" where
  "appendix_header m =
     [''---'',
      ''title: Downloads & Appendix'',
      ''---'',
      [],
      ''# Downloads & Appendix'',
      [],
      ''All source files from the '' @ name m @ '' data room.'',
      [],
      ''| File | Type | Category | Download |'',
      ''|------|------|----------|----------|'']"

definition appendix_footer :: "string \<Rightarrow> string list" where
  "appendix_footer now =
     [ [],
      ''---'',
      [],
      ''*Last synced: '' @ date_of now @ ''*'']"

definition appendixMdx :: "string \<Rightarrow> string \<Rightarrow> metadata \<Rightarrow> file_record list \<Rightarrow> string" where
  "appendixMdx sl now m classified =
     unlines (appendix_header m @ [appendix_rows sl classified] @ appendix_footer now)"

definition changelogMdx :: "string \<Rightarrow> string \<Rightarrow> metadata \<Rightarrow> string" where
  "changelogMdx dash now m = unlines
     [''---'',
      ''title: Changelog'',
      ''---'',
      [],
      ''# Changelog '' @ dash @ '' '' @ name m,
      [],
      ''## v'' @ version m @ '' '' @ dash @ '' '' @ date_of now,
      [],
      ''- Initial data room generation'',
      ''- '' @ showNat (fileCount m) @ '' documents imported'',
      ''- Categories: '' @ join_str (categories m) '', '']"

section \<open>The ingestion pipeline: one run\<close>

text \<open>
  The files of one project that the script reads and writes: the path \<open>raw\<close>, the two JSON
  files of the data directory and the four pages of the site-content directory (\<open>None\<close>:
  not written yet).
\<close>

record manifest =
  folderId :: string
  scannedAt :: string
  files :: "string list"
  instructions :: string

record store =
  raw :: raw_dir
  drive_manifest_json :: "manifest option"
  metadata_json :: "metadata option"
  index_mdx :: "string option"
  meta_ts :: "string option"
  appendix_mdx :: "string option"
  changelog_mdx :: "string option"

datatype run_error = UsageError | TypeError | EEXIST | IOError io_error

text \<open>\<open>mkdirSync(dir, {recursive: true})\<close> on the path \<open>raw\<close>: it creates a missing directory,
  keeps a directory and throws where the path holds something else. The other directories
  are taken to be creatable and the files to be writable: a write that throws ends the run
  and changes nothing in what the run has computed.\<close>

definition setupDirectories :: "store \<Rightarrow> run_error + store" where
  "setupDirectories st =
     (case raw st of
        Missing \<Rightarrow> Inr (st\<lparr>raw := Directory []\<rparr>)
      | NotADirectory \<Rightarrow> Inl EEXIST
      | Directory fs \<Rightarrow> Inr st)"

definition scanDriveFolder :: "string \<Rightarrow> string \<Rightarrow> store \<Rightarrow> manifest \<times> store" where
  "scanDriveFolder drive_id now st =
     (let mf = \<lparr>folderId = drive_id, scannedAt = now, files = [],
                instructions = ''Place exported Google Drive files in the /raw directory. Supported: .docx, .pdf, .xlsx, .csv, .pptx, .md, .txt''\<rparr>
      in (mf, st\<lparr>drive_manifest_json := Some mf\<rparr>))"

definition writeMetadata :: "metadata \<Rightarrow> store \<Rightarrow> store" where
  "writeMetadata m st = st\<lparr>metadata_json := Some m\<rparr>"

definition generateMDXPages ::
    "string \<Rightarrow> string \<Rightarrow> string \<Rightarrow> string \<Rightarrow> string \<Rightarrow> metadata \<Rightarrow> file_record list \<Rightarrow> store \<Rightarrow> store" where
  "generateMDXPages dash sl drive_id now1 now2 m classified st =
     st\<lparr>index_mdx := Some (indexMdx dash drive_id now1 m classified),
        meta_ts := Some (metaTs classified),
        appendix_mdx := Some (appendixMdx sl now2 m classified)\<rparr>"

definition generateChangelog :: "string \<Rightarrow> string \<Rightarrow> metadata \<Rightarrow> store \<Rightarrow> store" where
  "generateChangelog dash now m st = st\<lparr>changelog_mdx := Some (changelogMdx dash now m)\<rparr>"

text \<open>
  The script from top to bottom. \<open>clock k\<close> is the result of its evaluation number \<open>k\<close>
  (from 0) of \<open>new Date().toISOString()\<close>: one in \<open>scanDriveFolder\<close>, two in
  \<open>generateMetadata\<close>, two in \<open>generateMDXPages\<close>, one in \<open>generateChangelog\<close>. A run that completes yields the
  top-level constants \<open>classified\<close> and \<open>metadata\<close> and the files as it leaves them.
\<close>

record run_result =
  run_classified :: "file_record list"
  run_metadata :: metadata
  run_store :: store

definition pipeline :: "string \<Rightarrow> args \<Rightarrow> (nat \<Rightarrow> string) \<Rightarrow> store \<Rightarrow> run_error + run_result" where
  "pipeline dash a clock st =
     (if falsy (arg_drive a) \<or> falsy (arg_slug a) then Inl UsageError
      else case DRIVE_ID (the (arg_drive a)) of
        None \<Rightarrow> Inl TypeError
      | Some drive_id \<Rightarrow>
         (let sl = SLUG (the (arg_slug a));
              vis = VISIBILITY (arg_visibility a)
          in case setupDirectories st of
               Inl e \<Rightarrow> Inl e
             | Inr st1 \<Rightarrow>
                (let (mf, st2) = scanDriveFolder drive_id (clock 0) st1
                 in case classifyFiles (raw st2) of
                      Inl e \<Rightarrow> Inl (IOError e)
                    | Inr classified \<Rightarrow>
                       (let m = generateMetadata sl vis drive_id (clock 1) (clock 2) classified;
                            st3 = writeMetadata m st2;
                            st4 = generateMDXPages dash sl drive_id (clock 3) (clock 4) m classified st3;
                            st5 = generateChangelog dash (clock 5) m st4
                        in Inr \<lparr>run_classified = classified, run_metadata = m, run_store = st5\<rparr>))))"

section \<open>The sync watcher\<close>

text \<open>
  What the watcher reads in one cycle. \<open>projects_dir\<close> is the path \<open>content/projects\<close> with
  the names it lists. \<open>metadata_file d\<close> is the file \<open>metadata.json\<close> of the directory \<open>d\<close>:
  absent, present with text that \<open>JSON.parse\<close> rejects, or parsed. \<open>raw_path s\<close> is the path
  \<open>content/projects/s/raw\<close>; an entry carries the \<open>mtimeMs\<close> that \<open>statSync\<close> reports for it,
  or \<open>None\<close> where \<open>statSync\<close> throws (a dangling link).

  Of the parsed object the fields the watcher uses are kept. \<open>mj_updatedAt\<close> is the value of
  \<open>new Date(updatedAt).getTime()\<close>, with \<open>None\<close> for \<open>NaN\<close> (the field is missing or is no
  date). The other fields are strings or missing.
\<close>

record meta_json =
  mj_slug :: "string option"
  mj_updatedAt :: "real option"
  mj_driveFolder :: "string option"
  mj_visibility :: "string option"

datatype meta_file = NoFile | Unparsable | Parsed meta_json

record watch_fs =
  projects_dir :: "string dir"
  metadata_file :: "string \<Rightarrow> meta_file"
  raw_path :: "string \<Rightarrow> (string \<times> real option) dir"

text \<open>The object \<open>{ slug: dir, ...meta }\<close>: a \<open>slug\<close> of the metadata overrides the directory
  name.\<close>

record project =
  p_slug :: string
  p_updatedAt :: "real option"
  p_driveFolder :: "string option"
  p_visibility :: "string option"

definition spread_project :: "string \<Rightarrow> meta_json \<Rightarrow> project" where
  "spread_project d meta =
     \<lparr>p_slug = (case mj_slug meta of None \<Rightarrow> d | Some s \<Rightarrow> s),
      p_updatedAt = mj_updatedAt meta,
      p_driveFolder = mj_driveFolder meta,
      p_visibility = mj_visibility meta\<rparr>"

definition read_project :: "watch_fs \<Rightarrow> string \<Rightarrow> io_error + project" where
  "read_project fs d =
     (case metadata_file fs d of
        NoFile \<Rightarrow> Inl ENOENT
      | Unparsable \<Rightarrow> Inl SyntaxError
      | Parsed meta \<Rightarrow> Inr (spread_project d meta))"

text \<open>\<open>arr.map(f)\<close> with a callback that may throw: the first exception ends the map.\<close>

fun map_throw :: "('a \<Rightarrow> 'e + 'b) \<Rightarrow> 'a list \<Rightarrow> 'e + 'b list" where
  "map_throw f [] = Inr []"
| "map_throw f (x # xs) =
     (case f x of
        Inl e \<Rightarrow> Inl e
      | Inr y \<Rightarrow> (case map_throw f xs of Inl e \<Rightarrow> Inl e | Inr ys \<Rightarrow> Inr (y # ys)))"

definition getProjectsWithDrive :: "watch_fs \<Rightarrow> io_error + project list" where
  "getProjectsWithDrive fs =
     (if \<not> existsSync (projects_dir fs) then Inr []
      else case readdirSync (projects_dir fs) of
             Inl e \<Rightarrow> Inl e
           | Inr dirs \<Rightarrow>
              (case map_throw (read_project fs) (filter (\<lambda>d. metadata_file fs d \<noteq> NoFile) dirs) of
                 Inl e \<Rightarrow> Inl e
               | Inr ps \<Rightarrow> Inr (filter (\<lambda>p. \<not> falsy (p_driveFolder p)) ps)))"

text \<open>\<open>stat.mtimeMs > lastSync\<close>: a comparison with \<open>NaN\<close> is false.\<close>

definition newer_than :: "real \<Rightarrow> real option \<Rightarrow> bool" where
  "newer_than mtimeMs lastSync = (case lastSync of None \<Rightarrow> False | Some t \<Rightarrow> mtimeMs > t)"

text \<open>The loop \<open>for (const file of files)\<close> of \<open>checkForChanges\<close>.\<close>

fun any_newer :: "(string \<times> real option) list \<Rightarrow> real option \<Rightarrow> io_error + bool" where
  "any_newer [] lastSync = Inr False"
| "any_newer ((file, stat) # rest) lastSync =
     (case stat of
        None \<Rightarrow> Inl ENOENT
      | Some mtimeMs \<Rightarrow> if newer_than mtimeMs lastSync then Inr True else any_newer rest lastSync)"

definition checkForChanges :: "(string \<Rightarrow> (string \<times> real option) dir) \<Rightarrow> project \<Rightarrow> io_error + bool" where
  "checkForChanges raws p =
     (let lastSync = p_updatedAt p;
          rawDir = raws (p_slug p)
      in if \<not> existsSync rawDir then Inr False
         else case readdirSync rawDir of
                Inl e \<Rightarrow> Inl e
              | Inr fls \<Rightarrow> any_newer fls lastSync)"

text \<open>
  \<open>syncProject\<close> runs the ingestion script for the project and then \<open>git\<close>, and catches
  what they throw. Of the files the watcher reads during a cycle the script touches only
  the paths \<open>raw\<close>, through the \<open>mkdirSync\<close> of \<open>setupDirectories\<close> on the directory of the
  sanitised slug; it stops before that when its \<open>--drive\<close> or its \<open>--slug\<close> is empty. It
  also rewrites \<open>metadata.json\<close> and the pages, which the cycle has read before its loop or
  does not read. \<open>in_template v\<close> is \<open>${v}\<close> in the command line, and the values are taken to
  reach the script as they are (no character that the shell interprets inside double
  quotes).
\<close>

definition in_template :: "string option \<Rightarrow> string" where
  "in_template v = (case v of None \<Rightarrow> ''undefined'' | Some s \<Rightarrow> s)"

definition mkdir_raw :: "'e dir \<Rightarrow> 'e dir" where
  "mkdir_raw d = (case d of Missing \<Rightarrow> Directory [] | _ \<Rightarrow> d)"

definition syncProject :: "project \<Rightarrow> (string \<Rightarrow> (string \<times> real option) dir) \<Rightarrow> (string \<Rightarrow> (string \<times> real option) dir)" where
  "syncProject p raws =
     (if in_template (p_driveFolder p) = [] \<or> p_slug p = [] then raws
      else raws(SLUG (p_slug p) := mkdir_raw (raws (SLUG (p_slug p)))))"

text \<open>
  The loop of \<open>runSyncCycle\<close> over the projects read at its start. The result is the list of
  the projects for which \<open>syncProject\<close> was called, in order, with the paths \<open>raw\<close> as the
  cycle leaves them; an exception of \<open>checkForChanges\<close> ends the cycle.
\<close>

fun sync_loop :: "project list \<Rightarrow> (string \<Rightarrow> (string \<times> real option) dir)
    \<Rightarrow> io_error + (project list \<times> (string \<Rightarrow> (string \<times> real option) dir))" where
  "sync_loop [] raws = Inr ([], raws)"
| "sync_loop (p # ps) raws =
     (case checkForChanges raws p of
        Inl e \<Rightarrow> Inl e
      | Inr changed \<Rightarrow>
          if changed
          then (case sync_loop ps (syncProject p raws) of
                  Inl e \<Rightarrow> Inl e
                | Inr (synced, raws') \<Rightarrow> Inr (p # synced, raws'))
          else sync_loop ps raws)"

definition runSyncCycle :: "watch_fs \<Rightarrow> io_error + (project list \<times> (string \<Rightarrow> (string \<times> real option) dir))" where
  "runSyncCycle fs =
     (case getProjectsWithDrive fs of
        Inl e \<Rightarrow> Inl e
      | Inr projects \<Rightarrow> sync_loop projects (raw_path fs))"

section \<open>Definitions that follow the specification\<close>

text \<open>
  The category rule as the specification words it: an ordered list of keyword sets, each
  with its category; the first set with a keyword that occurs in the name gives the
  category, and \<open>appendix\<close> is the default.
\<close>

definition category_rules :: "(string \<times> string list) list" where
  "category_rules =
     [(''overview'', [''exec'', ''summary'']),
      (''financials'', [''financial'', ''revenue'']),
      (''team'', [''team'', ''org'']),
      (''product'', [''product'', ''roadmap'']),
      (''market'', [''market'', ''competitor'']),
      (''legal'', [''legal'', ''term'']),
      (''pitch'', [''deck'', ''pitch''])]"

fun matches_any :: "string \<Rightarrow> string list \<Rightarrow> bool" where
  "matches_any n [] = False"
| "matches_any n (k # ks) = (includes_str n k \<or> matches_any n ks)"

fun first_match :: "(string \<times> string list) list \<Rightarrow> string \<Rightarrow> string" where
  "first_match [] n = ''appendix''"
| "first_match ((cat, kws) # rules) n = (if matches_any n kws then cat else first_match rules n)"

text \<open>The extension table of the specification; an extension it does not list is \<open>unknown\<close>.\<close>

definition extension_table :: "(string \<times> string) list" where
  "extension_table =
     [(''.md'', ''markdown''), (''.mdx'', ''markdown''), (''.txt'', ''markdown''),
      (''.docx'', ''document''), (''.doc'', ''document''),
      (''.xlsx'', ''spreadsheet''), (''.xls'', ''spreadsheet''), (''.csv'', ''spreadsheet''),
      (''.pptx'', ''presentation''), (''.ppt'', ''presentation''),
      (''.pdf'', ''pdf''),
      (''.png'', ''image''), (''.jpg'', ''image''), (''.jpeg'', ''image''), (''.svg'', ''image''),
      (''.gif'', ''image'')]"

definition table_type :: "string \<Rightarrow> string" where
  "table_type e = (case map_of extension_table e of Some t \<Rightarrow> t | None \<Rightarrow> ''unknown'')"

text \<open>The distinct elements of a list in first-seen order: the element at a position is kept
  when it does not occur before that position.\<close>

definition first_seen :: "'a list \<Rightarrow> 'a list" where
  "first_seen xs = map (\<lambda>i. xs ! i) (filter (\<lambda>i. xs ! i \<notin> set (take i xs)) [0..<length xs])"

text \<open>
  The part of a string before the first occurrence of \<open>sep\<close> (the string itself when there
  is none) and the part after it. \<open>claimed_drive_id\<close> is the extraction as the specification
  words it, \<open>amended_drive_id\<close> the one that stops at the next occurrence of \<open>folders/\<close>.
\<close>

fun before_first :: "string \<Rightarrow> string \<Rightarrow> string" where
  "before_first sep [] = []"
| "before_first sep (c # cs) = (if prefix sep (c # cs) then [] else c # before_first sep cs)"

fun after_first :: "string \<Rightarrow> string \<Rightarrow> string" where
  "after_first sep [] = []"
| "after_first sep (c # cs) =
     (if prefix sep (c # cs) then drop (length sep) (c # cs) else after_first sep cs)"

definition claimed_drive_id :: "string \<Rightarrow> string" where
  "claimed_drive_id drive =
     (if includes_str drive ''folders/''
      then before_first ''?'' (after_first ''folders/'' drive)
      else drive)"

definition amended_drive_id :: "string \<Rightarrow> string" where
  "amended_drive_id drive =
     (if includes_str drive ''folders/''
      then before_first ''?'' (before_first ''folders/'' (after_first ''folders/'' drive))
      else drive)"

text \<open>The entries of a path that is listed; none where there is no directory.\<close>

definition listing :: "'e dir \<Rightarrow> 'e list" where
  "listing d = (case d of Directory es \<Rightarrow> es | _ \<Rightarrow> [])"

subsection \<open>Example inputs\<close>

definition example_args :: args where
  "example_args = \<lparr>arg_drive = Some ''https://drive.google.com/drive/folders/ABC123?usp=sharing'',
                    arg_slug = Some ''X Labs'', arg_visibility = None\<rparr>"

definition example_store :: store where
  "example_store =
     \<lparr>raw = Directory [''Executive-Summary.pdf'', ''Financial-Model.xlsx'', ''random-notes.txt''],
      drive_manifest_json = None, metadata_json = None, index_mdx = None, meta_ts = None,
      appendix_mdx = None, changelog_mdx = None\<rparr>"

definition example_clock :: "nat \<Rightarrow> string" where
  "example_clock k = ''2026-01-0'' @ showNat (Suc k) @ ''T10:00:00.000Z''"

definition later_clock :: "nat \<Rightarrow> string" where
  "later_clock k = ''2026-02-1'' @ showNat k @ ''T08:30:00.000Z''"

definition example_old_metadata :: metadata where
  "example_old_metadata = generateMetadata ''x-labs'' ''investor'' ''ABC123''
     ''2026-01-02T10:00:00.000Z'' ''2026-01-02T10:00:00.001Z'' []"

text \<open>
  The navigation manifest as an ordered mapping: the pair of key and title that a file
  contributes, the line that prints a pair, and the object that an object literal with
  these entries denotes, in which a later entry replaces an earlier one of the same key.
\<close>

definition nav_entry :: "file_record \<Rightarrow> string \<times> string" where
  "nav_entry f = (nav_slug (filename f), nav_name (filename f))"

definition render_entry :: "string \<times> string \<Rightarrow> string" where
  "render_entry kv = ''  '' @ [CHR 0x27] @ fst kv @ [CHR 0x27] @ '': '' @ [CHR 0x27] @ snd kv @ [CHR 0x27] @ '',''"

definition object_literal :: "(string \<times> string) list \<Rightarrow> (string \<rightharpoonup> string)" where
  "object_literal kvs = foldl (\<lambda>m kv. m(fst kv \<mapsto> snd kv)) Map.empty kvs"

definition example_classified :: "file_record list" where
  "example_classified = map classifyFile [''Q3 Report (final).DOCX'', ''Financial-Model.xlsx'', ''read_me.md'']"

text \<open>
  The change-detection rule of the watcher as the specification words it: some entry of the
  project's path \<open>raw\<close> has a modification time strictly greater than the recorded
  \<open>updatedAt\<close>. \<open>drive_projects\<close> lists the projects that declare a Drive reference, in the
  order of the directory listing. \<open>reads_succeed\<close> says that no read of the cycle throws: the
  projects path is no plain file, every \<open>metadata.json\<close> parses, and for every project with
  a Drive reference the path \<open>raw\<close> is no plain file and each of its entries has a status.
  \<open>same_files\<close> relates the paths \<open>raw\<close> before and after runs of the ingestion script, which
  at most create an empty directory where none was.
\<close>

definition stat_newer :: "real option \<Rightarrow> string \<times> real option \<Rightarrow> bool" where
  "stat_newer lastSync entry =
     (case snd entry of None \<Rightarrow> False
      | Some mtimeMs \<Rightarrow> (case lastSync of None \<Rightarrow> False | Some t \<Rightarrow> t < mtimeMs))"

definition has_newer_file :: "(string \<Rightarrow> (string \<times> real option) dir) \<Rightarrow> project \<Rightarrow> bool" where
  "has_newer_file raws p = list_ex (stat_newer (p_updatedAt p)) (listing (raws (p_slug p)))"

definition drive_projects :: "watch_fs \<Rightarrow> project list" where
  "drive_projects fs =
     filter (\<lambda>p. \<not> falsy (p_driveFolder p))
       (concat (map (\<lambda>d. case metadata_file fs d of Parsed meta \<Rightarrow> [spread_project d meta] | _ \<Rightarrow> [])
          (listing (projects_dir fs))))"

definition raw_readable :: "(string \<times> real option) dir \<Rightarrow> bool" where
  "raw_readable d = (d \<noteq> NotADirectory \<and> list_all (\<lambda>entry. snd entry \<noteq> None) (listing d))"

definition reads_succeed :: "watch_fs \<Rightarrow> bool" where
  "reads_succeed fs =
     (projects_dir fs \<noteq> NotADirectory
      \<and> list_all (\<lambda>d. metadata_file fs d \<noteq> Unparsable) (listing (projects_dir fs))
      \<and> list_all (\<lambda>p. raw_readable (raw_path fs (p_slug p))) (drive_projects fs))"

definition same_files :: "(string \<Rightarrow> (string \<times> real option) dir) \<Rightarrow> (string \<Rightarrow> (string \<times> real option) dir) \<Rightarrow> bool" where
  "same_files raws0 raws = (\<forall>s. raws s = raws0 s \<or> (raws0 s = Missing \<and> raws s = Directory []))"

definition tick_fs :: watch_fs where
  "tick_fs =
     \<lparr>projects_dir = Directory [''alpha'', ''beta'', ''gamma'', ''notes'', ''tmp''],
      metadata_file = (\<lambda>d.
        if d = ''alpha'' then Parsed \<lparr>mj_slug = Some ''alpha'', mj_updatedAt = Some 1000,
                                     mj_driveFolder = Some ''D1'', mj_visibility = Some ''investor''\<rparr>
        else if d = ''beta'' then Parsed \<lparr>mj_slug = Some ''beta'', mj_updatedAt = Some 1000,
                                     mj_driveFolder = Some ''D2'', mj_visibility = Some ''public''\<rparr>
        else if d = ''gamma'' then Parsed \<lparr>mj_slug = None, mj_updatedAt = Some 1000,
                                     mj_driveFolder = Some ''D3'', mj_visibility = None\<rparr>
        else if d = ''notes'' then Parsed \<lparr>mj_slug = Some ''notes'', mj_updatedAt = Some 1000,
                                     mj_driveFolder = None, mj_visibility = None\<rparr>
        else NoFile),
      raw_path = (\<lambda>s.
        if s = ''alpha'' then Directory [(''a.pdf'', Some 999.5), (''b.md'', Some 1000)]
        else if s = ''beta'' then Directory [(''c.md'', Some 400), (''d.md'', Some 1000.5)]
        else if s = ''notes'' then Directory [(''e.md'', Some 5000)]
        else Missing)\<rparr>"

definition broken_fs :: watch_fs where
  "broken_fs =
     \<lparr>projects_dir = Directory [''alpha''],
      metadata_file = (\<lambda>d.
        if d = ''alpha'' then Parsed \<lparr>mj_slug = Some ''alpha'', mj_updatedAt = Some 1000,
                                     mj_driveFolder = Some ''D1'', mj_visibility = Some ''investor''\<rparr>
        else NoFile),
      raw_path = (\<lambda>s.
        if s = ''alpha'' then Directory [(''dangling-link'', None), (''new.pdf'', Some 2000)]
        else Missing)\<rparr>"

section \<open>Properties of the string operations\<close>

lemma includes_str_iff: "includes_str s t \<longleftrightarrow> (\<exists>ps ss. s = ps @ t @ ss)"
proof (induction s)
  case Nil
  then show ?case by auto
next
  case (Cons x xs)
  show ?case
  proof
    assume "includes_str (x # xs) t"
    then consider "prefix t (x # xs)" | "includes_str xs t" by auto
    then show "\<exists>ps ss. x # xs = ps @ t @ ss"
    proof cases
      case 1
      then obtain ss where "x # xs = t @ ss" by (auto simp: prefix_def)
      then have "x # xs = [] @ t @ ss" by simp
      then show ?thesis by blast
    next
      case 2
      with Cons.IH obtain ps ss where "xs = ps @ t @ ss" by blast
      then have "x # xs = (x # ps) @ t @ ss" by simp
      then show ?thesis by blast
    qed
  next
    assume "\<exists>ps ss. x # xs = ps @ t @ ss"
    then obtain ps ss where e: "x # xs = ps @ t @ ss" by blast
    show "includes_str (x # xs) t"
    proof (cases ps)
      case Nil
      with e have "prefix t (x # xs)" by (simp add: prefix_def)
      then show ?thesis by simp
    next
      case (Cons p ps')
      with e have "xs = ps' @ t @ ss" by simp
      with Cons.IH have "includes_str xs t" by blast
      then show ?thesis by simp
    qed
  qed
qed

lemma includes_str_map: "includes_str s t \<Longrightarrow> includes_str (map h s) (map h t)"
proof -
  assume "includes_str s t"
  then obtain ps ss where "s = ps @ t @ ss" by (auto simp: includes_str_iff)
  then have "map h s = map h ps @ map h t @ map h ss" by simp
  then show ?thesis unfolding includes_str_iff by blast
qed

lemma includes_lower_exec: "includes_str f ''exec'' \<Longrightarrow> includes_str (toLowerCase f) ''exec''"
proof -
  assume "includes_str f ''exec''"
  then have "includes_str (map toLowerChar f) (map toLowerChar ''exec'')" by (rule includes_str_map)
  moreover have "map toLowerChar ''exec'' = ''exec''" by code_simp
  ultimately show ?thesis by (simp add: toLowerCase_def)
qed

subsection \<open>\<open>path.extname\<close> on a name with a base and an extension\<close>

lemma extname_loop_nodot:
  "startDot s = None \<Longrightarrow> endPos s \<noteq> None \<Longrightarrow> CHR ''.'' \<notin> set xs \<Longrightarrow> CHR ''/'' \<notin> set xs
   \<Longrightarrow> extname_loop (xs @ ys) s = extname_loop ys s"
  by (induction xs arbitrary: s) (auto simp: Let_def)

lemma extname_loop_predot:
  "startDot s \<noteq> None \<Longrightarrow> endPos s \<noteq> None \<Longrightarrow> CHR ''/'' \<notin> set xs \<Longrightarrow> xs \<noteq> []
   \<Longrightarrow> extname_loop xs s = s\<lparr>preDotState := (if last xs = CHR ''.'' then 1 else - 1)\<rparr>"
proof (induction xs arbitrary: s)
  case Nil
  then show ?case by simp
next
  case (Cons c cs)
  show ?case
  proof (cases cs)
    case Nil
    with Cons.prems show ?thesis by (auto simp: Let_def)
  next
    case (Cons d ds)
    let ?s2 = "if c = CHR ''.'' then (if preDotState s \<noteq> 1 then s\<lparr>preDotState := 1\<rparr> else s)
               else s\<lparr>preDotState := - 1\<rparr>"
    from Cons.prems have step: "extname_loop (c # cs) s = extname_loop cs ?s2"
      by (auto simp: Let_def)
    have "startDot ?s2 \<noteq> None" "endPos ?s2 \<noteq> None" using Cons.prems by auto
    moreover have "CHR ''/'' \<notin> set cs" "cs \<noteq> []" using Cons.prems Cons by auto
    ultimately have "extname_loop cs ?s2 = ?s2\<lparr>preDotState := (if last cs = CHR ''.'' then 1 else - 1)\<rparr>"
      by (rule Cons.IH)
    with step Cons show ?thesis by auto
  qed
qed

lemma extname_suffix:
  assumes "b \<noteq> []" "CHR ''/'' \<notin> set b" "CHR ''/'' \<notin> set e" "CHR ''.'' \<notin> set e" "e \<noteq> []"
  shows "extname (b @ CHR ''.'' # e) = CHR ''.'' # e"
proof -
  obtain c cs where rc: "rev e = c # cs" using assms(5) by (cases "rev e") auto
  have cnd: "c \<noteq> CHR ''.''" "c \<noteq> CHR ''/''" "CHR ''.'' \<notin> set cs" "CHR ''/'' \<notin> set cs"
    using assms(3,4) rc by (metis list.set_intros(1) set_rev, metis list.set_intros(1) set_rev,
       metis list.set_intros(2) set_rev, metis list.set_intros(2) set_rev)
  let ?n = "length b + 1 + length e"
  let ?s1 = "ext_init\<lparr>endPos := Some ?n, matchedSlash := False\<rparr>"
  let ?s2 = "?s1\<lparr>startDot := Some (length b)\<rparr>"
  have len: "length e = Suc (length cs)" using rc by (metis length_Cons length_rev)
  have "extname_loop (rev (b @ CHR ''.'' # e)) ext_init
        = extname_loop (c # (cs @ CHR ''.'' # rev b)) ext_init"
    using rc by simp
  also have "\<dots> = extname_loop (cs @ CHR ''.'' # rev b) ?s1"
    using cnd len by (simp add: Let_def ext_init_def add.commute)
  also have "\<dots> = extname_loop (CHR ''.'' # rev b) ?s1"
    using cnd by (intro extname_loop_nodot) (simp_all add: ext_init_def)
  also have "\<dots> = extname_loop (rev b) ?s2"
    by (simp add: Let_def ext_init_def)
  also have "\<dots> = ?s2\<lparr>preDotState := (if last (rev b) = CHR ''.'' then 1 else - 1)\<rparr>"
    using assms(1,2) by (intro extname_loop_predot) (simp_all add: ext_init_def)
  finally have fin: "extname_loop (rev (b @ CHR ''.'' # e)) ext_init =
      ?s2\<lparr>preDotState := (if last (rev b) = CHR ''.'' then 1 else - 1)\<rparr>" .
  show ?thesis
    unfolding extname_def fin using assms(5)
    by (simp add: Let_def slice_def ext_init_def)
qed

section \<open>Properties of the classifier\<close>

lemma category_of_first_match: "category_of n = first_match category_rules n"
  by (simp add: category_of_def category_rules_def)

lemma type_of_ext_table: "type_of_ext e = table_type e"
  by (simp add: type_of_ext_def table_type_def extension_table_def includes_arr_def)

text \<open>
  C1. The category of a file is the category of the first rule of the ordered rule list that
  has a keyword occurring in the lower-cased file name, and \<open>appendix\<close> when no rule has one.
  In particular a file name that contains both \<open>exec\<close> and \<open>financial\<close> is classified
  \<open>overview\<close>.
\<close>

theorem category_priority:
  "category (classifyFile f) = first_match category_rules (toLowerCase f)
   \<and> (includes_str f ''exec'' \<and> includes_str f ''financial'' \<longrightarrow> category (classifyFile f) = ''overview'')"
proof
  show "category (classifyFile f) = first_match category_rules (toLowerCase f)"
    by (simp add: classifyFile_def Let_def category_of_first_match)
  show "includes_str f ''exec'' \<and> includes_str f ''financial'' \<longrightarrow> category (classifyFile f) = ''overview''"
  proof
    assume "includes_str f ''exec'' \<and> includes_str f ''financial''"
    then have "includes_str (toLowerCase f) ''exec''" by (simp add: includes_lower_exec)
    then show "category (classifyFile f) = ''overview''"
      by (simp add: classifyFile_def Let_def category_of_def)
  qed
qed

theorem category_priority_witness:
  "includes_str ''exec-financials.pdf'' ''exec'' \<and> includes_str ''exec-financials.pdf'' ''financial''
   \<and> category (classifyFile ''exec-financials.pdf'') = ''overview''
   \<and> first_match category_rules (toLowerCase ''exec-financials.pdf'') = ''overview''"
proof -
  have h: "includes_str ''exec-financials.pdf'' ''exec'' \<and> includes_str ''exec-financials.pdf'' ''financial''"
    by simp
  from category_priority [of "''exec-financials.pdf''"] h show ?thesis by metis
qed

text \<open>
  C2. The type of a file is the entry of the extension table for the lower-cased extension
  of its name, and \<open>unknown\<close> when the table has no such entry. The extension is the one
  \<open>path.extname\<close> gives: for a name made of a non-empty base, a dot and a non-empty rest
  without dot, with no slash in it, the dot and the rest.
\<close>

theorem type_by_extension:
  "ftype (classifyFile f) = table_type (toLowerCase (extname f))
   \<and> (b \<noteq> [] \<and> e \<noteq> [] \<and> CHR ''/'' \<notin> set (b @ e) \<and> CHR ''.'' \<notin> set e
        \<longrightarrow> extname (b @ CHR ''.'' # e) = CHR ''.'' # e)"
  by (simp add: classifyFile_def Let_def type_of_ext_table extname_suffix)

theorem type_by_extension_witness:
  "''Report'' \<noteq> [] \<and> ''PDF'' \<noteq> [] \<and> CHR ''/'' \<notin> set (''Report'' @ ''PDF'') \<and> CHR ''.'' \<notin> set ''PDF''
   \<and> extname ''Report.PDF'' = ''.PDF''
   \<and> ftype (classifyFile ''Report.PDF'') = ''pdf''"
proof -
  have h: "''Report'' \<noteq> [] \<and> ''PDF'' \<noteq> [] \<and> CHR ''/'' \<notin> set (''Report'' @ ''PDF'') \<and> CHR ''.'' \<notin> set ''PDF''"
    by simp
  have t: "table_type (toLowerCase ''.PDF'') = ''pdf''" by code_simp
  from type_by_extension [of "''Report.PDF''" "''Report''" "''PDF''"] h
  have "ftype (classifyFile ''Report.PDF'') = table_type (toLowerCase (extname ''Report.PDF''))"
    and "extname ''Report.PDF'' = ''.PDF''" by simp_all
  with h t show ?thesis by simp
qed

text \<open>
  C3. When the path \<open>raw\<close> of the project does not exist, \<open>classifyFiles\<close> returns the empty
  sequence and raises nothing; the caller gets what it gets for a directory without files.
\<close>

theorem missing_raw_directory:
  "classifyFiles Missing = Inr [] \<and> classifyFiles Missing = classifyFiles (Directory [])"
  by (simp add: classifyFiles_def existsSync_def)

section \<open>Properties of the arguments and the metadata\<close>

lemma first_seen_snoc:
  "first_seen (xs @ [x]) = first_seen xs @ (if x \<in> set xs then [] else [x])"
proof -
  have a: "filter (\<lambda>i. (xs @ [x]) ! i \<notin> set (take i (xs @ [x]))) [0..<length xs]
           = filter (\<lambda>i. xs ! i \<notin> set (take i xs)) [0..<length xs]"
    by (rule filter_cong) (auto simp: nth_append)
  have b: "map (\<lambda>i. (xs @ [x]) ! i) (filter (\<lambda>i. xs ! i \<notin> set (take i xs)) [0..<length xs])
           = map (\<lambda>i. xs ! i) (filter (\<lambda>i. xs ! i \<notin> set (take i xs)) [0..<length xs])"
    by (rule map_cong) (auto simp: nth_append)
  have "first_seen (xs @ [x])
        = map (\<lambda>i. (xs @ [x]) ! i) (filter (\<lambda>i. (xs @ [x]) ! i \<notin> set (take i (xs @ [x]))) [0..<length xs])
          @ map (\<lambda>i. (xs @ [x]) ! i) (filter (\<lambda>i. (xs @ [x]) ! i \<notin> set (take i (xs @ [x]))) [length xs])"
    unfolding first_seen_def by (simp del: take_append)
  also have "\<dots> = first_seen xs @ (if x \<in> set xs then [] else [x])"
    unfolding a b first_seen_def by simp
  finally show ?thesis .
qed

lemma set_new_Set: "set (new_Set xs) = set xs"
  by (induction xs rule: rev_induct) (auto simp: new_Set_def Set_add_def)

lemma distinct_new_Set: "distinct (new_Set xs)"
  by (induction xs rule: rev_induct) (auto simp: new_Set_def Set_add_def)

lemma new_Set_first_seen: "new_Set xs = first_seen xs"
proof (induction xs rule: rev_induct)
  case Nil
  show ?case by (simp add: new_Set_def first_seen_def)
next
  case (snoc x xs)
  have "new_Set (xs @ [x]) = Set_add (new_Set xs) x" by (simp add: new_Set_def)
  also have "\<dots> = new_Set xs @ (if x \<in> set xs then [] else [x])"
    by (simp add: Set_add_def set_new_Set)
  finally show ?case by (simp add: snoc.IH first_seen_snoc)
qed

text \<open>
  C6. The metadata record has \<open>fileCount\<close> equal to the length of the classified sequence, and
  \<open>categories\<close> is the list of the categories of the sequence in first-seen order, without
  duplicates. For the files \<open>Executive-Summary.pdf\<close>, \<open>Financial-Model.xlsx\<close> and
  \<open>random-notes.txt\<close> the count is 3 and the categories are \<open>overview\<close>, \<open>financials\<close>,
  \<open>appendix\<close>.
\<close>

theorem metadata_count_and_categories:
  "fileCount (generateMetadata sl vis d now1 now2 classified) = length classified
   \<and> categories (generateMetadata sl vis d now1 now2 classified) = first_seen (map category classified)
   \<and> distinct (categories (generateMetadata sl vis d now1 now2 classified))
   \<and> set (categories (generateMetadata sl vis d now1 now2 classified)) = category ` set classified
   \<and> classifyFiles (Directory [''Executive-Summary.pdf'', ''Financial-Model.xlsx'', ''random-notes.txt''])
       = Inr [\<lparr>filename = ''Executive-Summary.pdf'', ext = ''.pdf'', ftype = ''pdf'', category = ''overview''\<rparr>,
              \<lparr>filename = ''Financial-Model.xlsx'', ext = ''.xlsx'', ftype = ''spreadsheet'', category = ''financials''\<rparr>,
              \<lparr>filename = ''random-notes.txt'', ext = ''.txt'', ftype = ''markdown'', category = ''appendix''\<rparr>]
   \<and> fileCount (generateMetadata sl vis d now1 now2
        (map classifyFile [''Executive-Summary.pdf'', ''Financial-Model.xlsx'', ''random-notes.txt''])) = 3
   \<and> categories (generateMetadata sl vis d now1 now2
        (map classifyFile [''Executive-Summary.pdf'', ''Financial-Model.xlsx'', ''random-notes.txt'']))
       = [''overview'', ''financials'', ''appendix'']"
proof -
  have e1: "classifyFile ''Executive-Summary.pdf''
      = \<lparr>filename = ''Executive-Summary.pdf'', ext = ''.pdf'', ftype = ''pdf'', category = ''overview''\<rparr>"
    by code_simp
  have e2: "classifyFile ''Financial-Model.xlsx''
      = \<lparr>filename = ''Financial-Model.xlsx'', ext = ''.xlsx'', ftype = ''spreadsheet'', category = ''financials''\<rparr>"
    by code_simp
  have e3: "classifyFile ''random-notes.txt''
      = \<lparr>filename = ''random-notes.txt'', ext = ''.txt'', ftype = ''markdown'', category = ''appendix''\<rparr>"
    by code_simp
  have ns: "new_Set [''overview'', ''financials'', ''appendix''] = [''overview'', ''financials'', ''appendix'']"
    by code_simp
  have g: "categories (generateMetadata sl vis d now1 now2 cl) = new_Set (map category cl)"
          "fileCount (generateMetadata sl vis d now1 now2 cl) = length cl" for cl
    by (simp_all add: generateMetadata_def)
  show ?thesis
    unfolding g
    by (simp add: new_Set_first_seen [symmetric] distinct_new_Set set_new_Set
        classifyFiles_def existsSync_def e1 e2 e3 ns)
qed

subsection \<open>The Drive id\<close>

lemma split_from_hd:
  "sep \<noteq> [] \<Longrightarrow> \<exists>rest. split_from sep cur s = (rev cur @ before_first sep s) # rest"
proof (induction sep cur s rule: split_from.induct)
  case (1 sep cur)
  then show ?case by simp
next
  case (2 sep cur c cs)
  then show ?case by auto
qed

lemma split_from_second:
  "sep \<noteq> [] \<Longrightarrow> includes_str s sep \<Longrightarrow>
   \<exists>rest. split_from sep cur s
      = (rev cur @ before_first sep s) # before_first sep (after_first sep s) # rest"
proof (induction sep cur s rule: split_from.induct)
  case (1 sep cur)
  then show ?case by simp
next
  case (2 sep cur c cs)
  show ?case
  proof (cases "prefix sep (c # cs)")
    case True
    obtain rest where "split_from sep [] (drop (length sep) (c # cs))
        = (rev [] @ before_first sep (drop (length sep) (c # cs))) # rest"
      using split_from_hd [OF "2.prems"(1)] by blast
    with True "2.prems"(1) show ?thesis by simp
  next
    case False
    with "2.prems" have inc: "includes_str cs sep" by simp
    from "2.IH"(2) [OF _ "2.prems"(1) inc] False "2.prems"(1)
    obtain rest where "split_from sep (c # cur) cs
        = (rev (c # cur) @ before_first sep cs) # before_first sep (after_first sep cs) # rest"
      by blast
    with False "2.prems"(1) show ?thesis by simp
  qed
qed

lemma first_occurrence:
  "includes_str s sep \<Longrightarrow> s = before_first sep s @ sep @ after_first sep s"
proof (induction s)
  case Nil
  then show ?case by simp
next
  case (Cons c cs)
  show ?case
  proof (cases "prefix sep (c # cs)")
    case True
    then obtain r where r: "c # cs = sep @ r" by (auto simp: prefix_def)
    then have "drop (length sep) (c # cs) = r" by simp
    moreover have "before_first sep (c # cs) = []"
      and "after_first sep (c # cs) = drop (length sep) (c # cs)" using True by simp_all
    ultimately show ?thesis using r by simp
  next
    case False
    with Cons show ?thesis by simp
  qed
qed

lemma first_occurrence_least:
  "s = p @ sep @ r \<Longrightarrow> length (before_first sep s) \<le> length p"
proof (induction s arbitrary: p)
  case Nil
  then show ?case by simp
next
  case (Cons c cs)
  show ?case
  proof (cases "prefix sep (c # cs)")
    case True
    then show ?thesis by simp
  next
    case False
    with Cons.prems have "p \<noteq> []" by (auto simp: prefix_def)
    then obtain p' where p: "p = c # p'" using Cons.prems by (cases p) auto
    with Cons.prems have "cs = p' @ sep @ r" by simp
    then have "length (before_first sep cs) \<le> length p'" by (rule Cons.IH)
    with False p show ?thesis by simp
  qed
qed

lemma before_first_none: "\<not> includes_str s sep \<Longrightarrow> before_first sep s = s"
  by (induction s) auto

lemma before_first_char: "before_first [c] s = takeWhile (\<lambda>d. d \<noteq> c) s"
  by (induction s) auto

lemma DRIVE_ID_Some: "DRIVE_ID drive = Some (amended_drive_id drive)"
proof (cases "includes_str drive ''folders/''")
  case True
  obtain rest where 1: "split_str drive ''folders/'' = before_first ''folders/'' drive
      # before_first ''folders/'' (after_first ''folders/'' drive) # rest"
    using split_from_second [of "''folders/''" drive "[]"] True by (auto simp: split_str_def)
  obtain rest' where 2: "split_str (before_first ''folders/'' (after_first ''folders/'' drive)) ''?''
      = before_first ''?'' (before_first ''folders/'' (after_first ''folders/'' drive)) # rest'"
    using split_from_hd [of "''?''" "[]"] by (auto simp: split_str_def)
  show ?thesis using True by (simp add: DRIVE_ID_def amended_drive_id_def 1 2 index_def)
next
  case False
  then show ?thesis by (simp add: DRIVE_ID_def amended_drive_id_def)
qed

text \<open>
  C8, as the specification words it, fails for an argument in which \<open>folders/\<close> occurs twice:
  the script keeps what stands between the first two occurrences.
\<close>

theorem drive_id_counterexample:
  "DRIVE_ID ''https://drive.google.com/drive/folders/ABC/folders/DEF?usp=sharing''
     \<noteq> Some (claimed_drive_id ''https://drive.google.com/drive/folders/ABC/folders/DEF?usp=sharing'')
   \<and> DRIVE_ID ''https://drive.google.com/drive/folders/ABC/folders/DEF?usp=sharing'' = Some ''ABC/''
   \<and> claimed_drive_id ''https://drive.google.com/drive/folders/ABC/folders/DEF?usp=sharing''
     = ''ABC/folders/DEF''"
  by code_simp

text \<open>
  C8, amended. When the argument contains \<open>folders/\<close>, the id is the part after the first
  \<open>folders/\<close> up to the next \<open>folders/\<close> (or to the end of the string), cut at its first
  \<open>?\<close>; otherwise it is the argument. Where \<open>folders/\<close> does not occur again after its first
  occurrence this is the part after the first \<open>folders/\<close> cut at its first \<open>?\<close>. The URL
  \<open>https://drive.google.com/drive/folders/ABC123?usp=sharing\<close> gives \<open>ABC123\<close>, and \<open>ABC123\<close>
  gives \<open>ABC123\<close>.
\<close>

theorem drive_id_extraction:
  "DRIVE_ID drive = Some (amended_drive_id drive)
   \<and> (\<not> includes_str (after_first ''folders/'' drive) ''folders/''
        \<longrightarrow> DRIVE_ID drive = Some (claimed_drive_id drive))
   \<and> DRIVE_ID ''https://drive.google.com/drive/folders/ABC123?usp=sharing'' = Some ''ABC123''
   \<and> DRIVE_ID ''ABC123'' = Some ''ABC123''"
proof (intro conjI impI)
  show "DRIVE_ID drive = Some (amended_drive_id drive)" by (rule DRIVE_ID_Some)
  show "DRIVE_ID ''https://drive.google.com/drive/folders/ABC123?usp=sharing'' = Some ''ABC123''"
    by code_simp
  show "DRIVE_ID ''ABC123'' = Some ''ABC123''" by code_simp
next
  assume "\<not> includes_str (after_first ''folders/'' drive) ''folders/''"
  then have "before_first ''folders/'' (after_first ''folders/'' drive) = after_first ''folders/'' drive"
    by (rule before_first_none)
  then show "DRIVE_ID drive = Some (claimed_drive_id drive)"
    by (simp add: DRIVE_ID_Some amended_drive_id_def claimed_drive_id_def)
qed

theorem drive_id_extraction_witness:
  "\<not> includes_str (after_first ''folders/'' ''https://drive.google.com/drive/u/0/folders/1aB_c-9?usp=drive_link'') ''folders/''
   \<and> DRIVE_ID ''https://drive.google.com/drive/u/0/folders/1aB_c-9?usp=drive_link'' = Some ''1aB_c-9''"
proof -
  have h: "\<not> includes_str (after_first ''folders/'' ''https://drive.google.com/drive/u/0/folders/1aB_c-9?usp=drive_link'') ''folders/''"
    by code_simp
  have c: "claimed_drive_id ''https://drive.google.com/drive/u/0/folders/1aB_c-9?usp=drive_link'' = ''1aB_c-9''"
    by code_simp
  from drive_id_extraction [of "''https://drive.google.com/drive/u/0/folders/1aB_c-9?usp=drive_link''"] h
  have "DRIVE_ID ''https://drive.google.com/drive/u/0/folders/1aB_c-9?usp=drive_link''
        = Some (claimed_drive_id ''https://drive.google.com/drive/u/0/folders/1aB_c-9?usp=drive_link'')"
    by blast
  with h c show ?thesis by simp
qed

section \<open>Properties of a run\<close>

lemma pipeline_completes:
  assumes "\<not> falsy (arg_drive a)" "\<not> falsy (arg_slug a)" "raw st \<noteq> NotADirectory"
  shows "pipeline dash a clock st =
    (let drive_id = amended_drive_id (the (arg_drive a));
         sl = SLUG (the (arg_slug a));
         classified = map classifyFile (listing (raw st));
         m = generateMetadata sl (VISIBILITY (arg_visibility a)) drive_id (clock 1) (clock 2) classified
     in Inr \<lparr>run_classified = classified, run_metadata = m,
        run_store = st\<lparr>raw := Directory (listing (raw st)),
          drive_manifest_json := Some (fst (scanDriveFolder drive_id (clock 0) st)),
          metadata_json := Some m,
          index_mdx := Some (indexMdx dash drive_id (clock 3) m classified),
          meta_ts := Some (metaTs classified),
          appendix_mdx := Some (appendixMdx sl (clock 4) m classified),
          changelog_mdx := Some (changelogMdx dash (clock 5) m)\<rparr>\<rparr>)"
proof (cases "raw st")
  case Missing
  with assms show ?thesis
    by (simp add: pipeline_def DRIVE_ID_Some setupDirectories_def scanDriveFolder_def Let_def
        classifyFiles_def existsSync_def writeMetadata_def generateMDXPages_def generateChangelog_def
        listing_def)
next
  case NotADirectory
  with assms show ?thesis by simp
next
  case (Directory fs)
  with assms show ?thesis
    by (simp add: pipeline_def DRIVE_ID_Some setupDirectories_def scanDriveFolder_def Let_def
        classifyFiles_def existsSync_def writeMetadata_def generateMDXPages_def generateChangelog_def
        listing_def)
qed

lemma pipeline_fails:
  "falsy (arg_drive a) \<or> falsy (arg_slug a) \<or> raw st = NotADirectory
   \<Longrightarrow> \<exists>e. pipeline dash a clock st = Inl e"
  by (auto simp: pipeline_def DRIVE_ID_Some setupDirectories_def)

lemma pipeline_Inr_iff:
  "(\<exists>r. pipeline dash a clock st = Inr r)
   \<longleftrightarrow> \<not> falsy (arg_drive a) \<and> \<not> falsy (arg_slug a) \<and> raw st \<noteq> NotADirectory"
  using pipeline_fails [of a st dash clock] pipeline_completes [of a st dash clock]
  by (metis Inl_Inr_False)

lemma pipeline_result:
  assumes "pipeline dash a clock st = Inr r"
  shows "run_classified r = map classifyFile (listing (raw st))"
    and "run_metadata r = generateMetadata (SLUG (the (arg_slug a))) (VISIBILITY (arg_visibility a))
           (amended_drive_id (the (arg_drive a))) (clock 1) (clock 2) (run_classified r)"
    and "metadata_json (run_store r) = Some (run_metadata r)"
    and "index_mdx (run_store r) = Some (indexMdx dash (amended_drive_id (the (arg_drive a))) (clock 3)
           (run_metadata r) (run_classified r))"
    and "meta_ts (run_store r) = Some (metaTs (run_classified r))"
    and "appendix_mdx (run_store r) = Some (appendixMdx (SLUG (the (arg_slug a))) (clock 4)
           (run_metadata r) (run_classified r))"
proof -
  from assms have c: "\<not> falsy (arg_drive a)" "\<not> falsy (arg_slug a)" "raw st \<noteq> NotADirectory"
    using pipeline_Inr_iff [of dash a clock st] by blast+
  note eq = pipeline_completes [OF c, of dash clock]
  from assms eq show "run_classified r = map classifyFile (listing (raw st))"
    by (auto simp: Let_def)
  from assms eq show "run_metadata r = generateMetadata (SLUG (the (arg_slug a))) (VISIBILITY (arg_visibility a))
           (amended_drive_id (the (arg_drive a))) (clock 1) (clock 2) (run_classified r)"
    by (auto simp: Let_def)
  from assms eq show "metadata_json (run_store r) = Some (run_metadata r)"
    by (auto simp: Let_def)
  from assms eq show "index_mdx (run_store r) = Some (indexMdx dash (amended_drive_id (the (arg_drive a))) (clock 3)
           (run_metadata r) (run_classified r))"
    by (auto simp: Let_def)
  from assms eq show "meta_ts (run_store r) = Some (metaTs (run_classified r))"
    by (auto simp: Let_def)
  from assms eq show "appendix_mdx (run_store r) = Some (appendixMdx (SLUG (the (arg_slug a))) (clock 4)
           (run_metadata r) (run_classified r))"
    by (auto simp: Let_def)
qed

lemma pipeline_ignores_stored_metadata:
  "pipeline dash a clock (st\<lparr>metadata_json := prev\<rparr>) = pipeline dash a clock st"
proof (cases "\<not> falsy (arg_drive a) \<and> \<not> falsy (arg_slug a) \<and> raw st \<noteq> NotADirectory")
  case True
  then have c: "\<not> falsy (arg_drive a)" "\<not> falsy (arg_slug a)" "raw st \<noteq> NotADirectory"
     and c': "raw (st\<lparr>metadata_json := prev\<rparr>) \<noteq> NotADirectory" by simp_all
  show ?thesis
    unfolding pipeline_completes [OF c] pipeline_completes [OF c(1,2) c']
    by (simp add: Let_def scanDriveFolder_def)
next
  case False
  then show ?thesis
    by (auto simp: pipeline_def DRIVE_ID_Some setupDirectories_def)
qed

lemma example_run_completes:
  "raw st \<noteq> NotADirectory \<Longrightarrow>
   pipeline dash example_args clock st = Inr (projr (pipeline dash example_args clock st))"
proof -
  assume "raw st \<noteq> NotADirectory"
  then have "\<exists>r. pipeline dash example_args clock st = Inr r"
    unfolding pipeline_Inr_iff by (simp add: example_args_def falsy_def)
  then show ?thesis by auto
qed

text \<open>
  C9. A run does not read the stored metadata: whatever \<open>metadata.json\<close> held before, the run
  is the same. In the metadata it returns and stores, \<open>createdAt\<close> and \<open>updatedAt\<close> are the two
  readings of the clock that \<open>generateMetadata\<close> takes, on a first run and on every later one.
\<close>

theorem creation_time_recomputed:
  "pipeline dash a clock (st\<lparr>metadata_json := prev\<rparr>) = pipeline dash a clock st
   \<and> (pipeline dash a clock st = Inr r \<longrightarrow>
        metadata_json (run_store r) = Some (run_metadata r)
        \<and> createdAt (run_metadata r) = clock 1 \<and> updatedAt (run_metadata r) = clock 2)"
proof (intro conjI impI)
  show "pipeline dash a clock (st\<lparr>metadata_json := prev\<rparr>) = pipeline dash a clock st"
    by (rule pipeline_ignores_stored_metadata)
next
  assume r: "pipeline dash a clock st = Inr r"
  show "metadata_json (run_store r) = Some (run_metadata r)" by (rule pipeline_result(3) [OF r])
  show "createdAt (run_metadata r) = clock 1"
    by (subst pipeline_result(2) [OF r]) (simp add: generateMetadata_def)
  show "updatedAt (run_metadata r) = clock 2"
    by (subst pipeline_result(2) [OF r]) (simp add: generateMetadata_def)
qed

theorem creation_time_recomputed_witness:
  "pipeline ''-'' example_args later_clock (example_store\<lparr>metadata_json := Some example_old_metadata\<rparr>)
     = Inr (projr (pipeline ''-'' example_args later_clock (example_store\<lparr>metadata_json := Some example_old_metadata\<rparr>)))
   \<and> createdAt example_old_metadata = ''2026-01-02T10:00:00.000Z''
   \<and> createdAt (run_metadata (projr (pipeline ''-'' example_args later_clock
         (example_store\<lparr>metadata_json := Some example_old_metadata\<rparr>))))
       = ''2026-02-11T08:30:00.000Z''
   \<and> map_option createdAt (metadata_json (run_store (projr (pipeline ''-'' example_args later_clock
         (example_store\<lparr>metadata_json := Some example_old_metadata\<rparr>)))))
       = Some ''2026-02-11T08:30:00.000Z''"
proof -
  let ?st = "example_store\<lparr>metadata_json := Some example_old_metadata\<rparr>"
  let ?r = "projr (pipeline ''-'' example_args later_clock ?st)"
  have run: "pipeline ''-'' example_args later_clock ?st = Inr ?r"
    by (rule example_run_completes) (simp add: example_store_def)
  have old: "createdAt example_old_metadata = ''2026-01-02T10:00:00.000Z''"
    by (simp add: example_old_metadata_def generateMetadata_def)
  have now: "later_clock 1 = ''2026-02-11T08:30:00.000Z''" by code_simp
  from creation_time_recomputed [where dash = "''-''" and a = example_args and clock = later_clock
      and st = ?st and r = ?r] run
  have "metadata_json (run_store ?r) = Some (run_metadata ?r)"
    and "createdAt (run_metadata ?r) = later_clock 1" by blast+
  with run old now show ?thesis by simp
qed

section \<open>Properties of the generated pages\<close>

lemma unlines_append: "unlines (xs @ ys) = unlines xs @ unlines ys"
  by (simp add: unlines_def)

lemma join_str_unlines: "ls \<noteq> [] \<Longrightarrow> join_str ls ''\<newline>'' @ ''\<newline>'' = unlines ls"
proof (induction ls "''\<newline>''" rule: join_str.induct)
  case 1
  then show ?case by simp
next
  case (2 x)
  then show ?case by (simp add: unlines_def)
next
  case (3 x y ys)
  then show ?case by (simp add: unlines_def)
qed

lemma metaTs_lines:
  "metaTs cl = unlines ([''export default {'', ''  index: 'Overview',''] 
       @ (if filter nav_eligible cl = [] then [ [] ] else map nav_line (filter nav_eligible cl))
       @ [''  appendix: 'Downloads & Appendix','', ''}''])"
proof (cases "filter nav_eligible cl = []")
  case True
  then show ?thesis by (simp add: metaTs_def unlines_def)
next
  case False
  then have "map nav_line (filter nav_eligible cl) \<noteq> []" by simp
  from join_str_unlines [OF this] False show ?thesis
    by (simp add: metaTs_def unlines_def)
qed

lemma not_alnum_hyphen: "\<not> is_lower_alnum (CHR ''-'')"
  by (simp add: is_lower_alnum_def)

lemma filter_dropWhile_not: "filter P (dropWhile (\<lambda>d. \<not> P d) cs) = filter P cs"
  by (induction cs) auto

lemma runs_charset: "set (replace_non_alnum_runs s) \<subseteq> {c. is_lower_alnum c \<or> c = CHR ''-''}"
  by (induction s rule: replace_non_alnum_runs.induct) auto

lemma runs_keep_alnum: "filter is_lower_alnum (replace_non_alnum_runs s) = filter is_lower_alnum s"
  by (induction s rule: replace_non_alnum_runs.induct) (auto simp: not_alnum_hyphen filter_dropWhile_not)

lemma runs_head:
  "s = [] \<or> is_lower_alnum (hd s) \<Longrightarrow> \<not> prefix ''-'' (replace_non_alnum_runs s)"
  by (cases s) (auto simp: not_alnum_hyphen)

lemma dropWhile_head: "dropWhile (\<lambda>d. \<not> P d) cs = [] \<or> P (hd (dropWhile (\<lambda>d. \<not> P d) cs))"
  by (metis hd_dropWhile)

lemma runs_no_double_hyphen: "\<not> includes_str (replace_non_alnum_runs s) ''--''"
proof (induction s rule: replace_non_alnum_runs.induct)
  case 1
  then show ?case by simp
next
  case (2 c cs)
  show ?case
  proof (cases "is_lower_alnum c")
    case True
    then have "c \<noteq> CHR ''-''" using not_alnum_hyphen by auto
    with True 2 show ?thesis by simp
  next
    case False
    let ?d = "dropWhile (\<lambda>d. \<not> is_lower_alnum d) cs"
    have "\<not> prefix ''-'' (replace_non_alnum_runs ?d)"
      by (rule runs_head) (rule dropWhile_head)
    with False 2 show ?thesis by simp
  qed
qed

lemma runs_collapse:
  assumes "r \<noteq> []" "list_all (\<lambda>c. \<not> is_lower_alnum c) r" "s = [] \<or> is_lower_alnum (hd s)"
  shows "replace_non_alnum_runs (r @ s) = CHR ''-'' # replace_non_alnum_runs s"
proof -
  obtain c cs where r: "r = c # cs" using assms(1) by (cases r) auto
  with assms(2) have c: "\<not> is_lower_alnum c" and cs: "list_all (\<lambda>c. \<not> is_lower_alnum c) cs" by simp_all
  have "dropWhile (\<lambda>d. \<not> is_lower_alnum d) (cs @ s) = s"
    using cs assms(3) by (induction cs) (auto simp: dropWhile_eq_self_iff)
  with r c show ?thesis by simp
qed

lemma strip_extension_suffix:
  "e \<noteq> [] \<Longrightarrow> CHR ''.'' \<notin> set e \<Longrightarrow> CHR ''/'' \<notin> set e \<Longrightarrow> strip_extension (b @ CHR ''.'' # e) = b"
  by (induction b) (auto simp: list_all_iff)

lemma strip_extension_other:
  "\<not> (\<exists>b e. f = b @ CHR ''.'' # e \<and> e \<noteq> [] \<and> CHR ''.'' \<notin> set e \<and> CHR ''/'' \<notin> set e) \<Longrightarrow> strip_extension f = f"
proof (induction f)
  case Nil
  then show ?case by simp
next
  case (Cons c cs)
  have 1: "\<not> (c = CHR ''.'' \<and> cs \<noteq> [] \<and> list_all (\<lambda>d. d \<noteq> CHR ''/'' \<and> d \<noteq> CHR ''.'') cs)"
  proof
    assume a: "c = CHR ''.'' \<and> cs \<noteq> [] \<and> list_all (\<lambda>d. d \<noteq> CHR ''/'' \<and> d \<noteq> CHR ''.'') cs"
    then have "c # cs = [] @ CHR ''.'' # cs \<and> cs \<noteq> [] \<and> CHR ''.'' \<notin> set cs \<and> CHR ''/'' \<notin> set cs"
      by (auto simp: list_all_iff)
    with Cons.prems show False by blast
  qed
  have 2: "\<not> (\<exists>b e. cs = b @ CHR ''.'' # e \<and> e \<noteq> [] \<and> CHR ''.'' \<notin> set e \<and> CHR ''/'' \<notin> set e)"
  proof
    assume "\<exists>b e. cs = b @ CHR ''.'' # e \<and> e \<noteq> [] \<and> CHR ''.'' \<notin> set e \<and> CHR ''/'' \<notin> set e"
    then obtain b e where "cs = b @ CHR ''.'' # e \<and> e \<noteq> [] \<and> CHR ''.'' \<notin> set e \<and> CHR ''/'' \<notin> set e" by blast
    then have "c # cs = (c # b) @ CHR ''.'' # e \<and> e \<noteq> [] \<and> CHR ''.'' \<notin> set e \<and> CHR ''/'' \<notin> set e" by simp
    with Cons.prems show False by blast
  qed
  from 1 Cons.IH [OF 2] show ?case by auto
qed

lemma extname_loop_startDot_None:
  "startDot s = None \<Longrightarrow> CHR ''.'' \<notin> set xs \<Longrightarrow> startDot (extname_loop xs s) = None"
  by (induction xs arbitrary: s) (auto simp: Let_def)

lemma extname_no_dot: "CHR ''.'' \<notin> set f \<Longrightarrow> extname f = []"
proof -
  assume "CHR ''.'' \<notin> set f"
  then have "startDot (extname_loop (rev f) ext_init) = None"
    by (intro extname_loop_startDot_None) (simp_all add: ext_init_def)
  then show ?thesis by (simp add: extname_def Let_def)
qed

lemma extname_leading_dot:
  assumes "CHR ''/'' \<notin> set e" "CHR ''.'' \<notin> set e"
  shows "extname (CHR ''.'' # e) = []"
proof (cases "rev e")
  case Nil
  then show ?thesis by (simp add: extname_def Let_def ext_init_def)
next
  case (Cons c cs)
  have cnd: "c \<noteq> CHR ''.''" "c \<noteq> CHR ''/''" "CHR ''.'' \<notin> set cs" "CHR ''/'' \<notin> set cs"
    using assms Cons by (metis list.set_intros(1) set_rev, metis list.set_intros(1) set_rev,
       metis list.set_intros(2) set_rev, metis list.set_intros(2) set_rev)
  let ?s1 = "ext_init\<lparr>endPos := Some (Suc (Suc (length cs))), matchedSlash := False\<rparr>"
  have "extname_loop (rev (CHR ''.'' # e)) ext_init = extname_loop (c # (cs @ [CHR ''.''])) ext_init"
    using Cons by simp
  also have "\<dots> = extname_loop (cs @ [CHR ''.'']) ?s1"
    using cnd by (simp add: Let_def ext_init_def)
  also have "\<dots> = extname_loop [CHR ''.''] ?s1"
    using cnd by (intro extname_loop_nodot) (simp_all add: ext_init_def)
  also have "\<dots> = ?s1\<lparr>startDot := Some 0\<rparr>"
    by (simp add: Let_def ext_init_def)
  finally show ?thesis
    by (simp add: extname_def Let_def ext_init_def)
qed

lemma extname_trailing_dot:
  assumes "b \<noteq> []" "CHR ''/'' \<notin> set b"
  shows "length (extname (b @ [CHR ''.''])) \<le> 1"
proof -
  let ?s2 = "ext_init\<lparr>endPos := Some (Suc (length b)), matchedSlash := False, startDot := Some (length b)\<rparr>"
  have "extname_loop (rev (b @ [CHR ''.''])) ext_init = extname_loop (rev b) ?s2"
    by (simp add: Let_def ext_init_def)
  also have "\<dots> = ?s2\<lparr>preDotState := (if last (rev b) = CHR ''.'' then 1 else - 1)\<rparr>"
    using assms by (intro extname_loop_predot) (simp_all add: ext_init_def)
  finally show ?thesis
    by (simp add: extname_def Let_def ext_init_def slice_def)
qed

lemma eligible_extension:
  assumes "nav_eligible (classifyFile f)"
  shows "3 \<le> length (extname f)"
proof -
  from assms have "toLowerCase (extname f) \<in> {''.md'', ''.mdx'', ''.txt'', ''.docx'', ''.doc''}"
    by (auto simp: nav_eligible_def classifyFile_def Let_def type_of_ext_def includes_arr_def
        split: if_splits)
  then have "3 \<le> length (toLowerCase (extname f))" by auto
  then show ?thesis by (simp add: toLowerCase_def)
qed

lemma eligible_name_parts:
  assumes "nav_eligible (classifyFile f)" "CHR ''/'' \<notin> set f"
  shows "f = nav_name f @ extname f"
proof -
  have len: "3 \<le> length (extname f)" using assms(1) by (rule eligible_extension)
  then have "CHR ''.'' \<in> set f" using extname_no_dot [of f] by force
  then obtain b e where f: "f = b @ CHR ''.'' # e" and e: "CHR ''.'' \<notin> set e"
    by (meson split_list_last)
  from assms(2) f have sl: "CHR ''/'' \<notin> set b" "CHR ''/'' \<notin> set e" by auto
  have b: "b \<noteq> []" using len f e sl extname_leading_dot [of e] by force
  have e': "e \<noteq> []" using len f b sl extname_trailing_dot [of b] by force
  have "extname f = CHR ''.'' # e" unfolding f using b sl e e' by (intro extname_suffix)
  moreover have "strip_extension f = b" unfolding f using e' e sl by (intro strip_extension_suffix)
  ultimately show ?thesis using f by (simp add: nav_name_def)
qed

lemma nav_line_entry: "nav_line = (\<lambda>f. render_entry (nav_entry f))"
  by (rule ext) (simp add: nav_line_def render_entry_def nav_entry_def)

text \<open>
  C7. The navigation manifest is the text of an object literal with, in this order, the
  entry \<open>index: 'Overview'\<close>, one entry per file whose type is \<open>markdown\<close> or \<open>document\<close>, in
  the order of the file sequence (an empty line when there is no such file), and the entry
  \<open>appendix: 'Downloads & Appendix'\<close>; a file of another type contributes nothing. The title
  of a file's entry is the file name without its extension: what stands before the last
  dot when a non-empty rest without slash follows it, which for such a file is what
  \<open>path.extname\<close> calls the extension. The key is the lower-cased title in which every
  maximal run of characters outside \<open>a-z0-9\<close> is replaced by one hyphen: it has only
  characters of \<open>a-z0-9\<close> and hyphens, no two hyphens in a row, and the same characters of
  \<open>a-z0-9\<close> in the same order.
\<close>

theorem navigation_manifest:
  "metaTs cl = unlines ([''export default {'', ''  index: 'Overview','']
       @ (if filter nav_eligible cl = [] then [ [] ] else map (\<lambda>f. render_entry (nav_entry f)) (filter nav_eligible cl))
       @ [''  appendix: 'Downloads & Appendix','', ''}''])
   \<and> nav_eligible f = (ftype f = ''markdown'' \<or> ftype f = ''document'')
   \<and> nav_entry f = (replace_non_alnum_runs (toLowerCase (strip_extension (filename f))), strip_extension (filename f))
   \<and> (e \<noteq> [] \<and> CHR ''.'' \<notin> set e \<and> CHR ''/'' \<notin> set e \<longrightarrow> strip_extension (b @ CHR ''.'' # e) = b)
   \<and> (nav_eligible (classifyFile fl) \<and> CHR ''/'' \<notin> set fl \<longrightarrow> fl = strip_extension fl @ extname fl)
   \<and> set (replace_non_alnum_runs s) \<subseteq> {c. is_lower_alnum c \<or> c = CHR ''-''}
   \<and> filter is_lower_alnum (replace_non_alnum_runs s) = filter is_lower_alnum s
   \<and> \<not> includes_str (replace_non_alnum_runs s) ''--''
   \<and> (r \<noteq> [] \<and> list_all (\<lambda>c. \<not> is_lower_alnum c) r \<and> (t = [] \<or> is_lower_alnum (hd t))
        \<longrightarrow> replace_non_alnum_runs (r @ t) = CHR ''-'' # replace_non_alnum_runs t)
   \<and> (is_lower_alnum c \<longrightarrow> replace_non_alnum_runs (c # t) = c # replace_non_alnum_runs t)"
proof (intro conjI impI)
  show "metaTs cl = unlines ([''export default {'', ''  index: 'Overview','']
       @ (if filter nav_eligible cl = [] then [ [] ] else map (\<lambda>f. render_entry (nav_entry f)) (filter nav_eligible cl))
       @ [''  appendix: 'Downloads & Appendix','', ''}''])"
    unfolding metaTs_lines nav_line_entry ..
  show "nav_eligible f = (ftype f = ''markdown'' \<or> ftype f = ''document'')"
    by (simp add: nav_eligible_def)
  show "nav_entry f = (replace_non_alnum_runs (toLowerCase (strip_extension (filename f))), strip_extension (filename f))"
    by (simp add: nav_entry_def nav_slug_def nav_name_def)
  show "set (replace_non_alnum_runs s) \<subseteq> {c. is_lower_alnum c \<or> c = CHR ''-''}" by (rule runs_charset)
  show "filter is_lower_alnum (replace_non_alnum_runs s) = filter is_lower_alnum s" by (rule runs_keep_alnum)
  show "\<not> includes_str (replace_non_alnum_runs s) ''--''" by (rule runs_no_double_hyphen)
next
  assume "e \<noteq> [] \<and> CHR ''.'' \<notin> set e \<and> CHR ''/'' \<notin> set e"
  then show "strip_extension (b @ CHR ''.'' # e) = b" by (simp add: strip_extension_suffix)
next
  assume "nav_eligible (classifyFile fl) \<and> CHR ''/'' \<notin> set fl"
  then show "fl = strip_extension fl @ extname fl"
    using eligible_name_parts [of fl] by (simp add: nav_name_def)
next
  assume "r \<noteq> [] \<and> list_all (\<lambda>c. \<not> is_lower_alnum c) r \<and> (t = [] \<or> is_lower_alnum (hd t))"
  then show "replace_non_alnum_runs (r @ t) = CHR ''-'' # replace_non_alnum_runs t"
    by (simp add: runs_collapse)
next
  assume "is_lower_alnum c"
  then show "replace_non_alnum_runs (c # t) = c # replace_non_alnum_runs t" by simp
qed

theorem navigation_manifest_witness:
  "''DOCX'' \<noteq> [] \<and> CHR ''.'' \<notin> set ''DOCX'' \<and> CHR ''/'' \<notin> set ''DOCX''
   \<and> strip_extension ''Q3 Report (final).DOCX'' = ''Q3 Report (final)''
   \<and> nav_eligible (classifyFile ''Q3 Report (final).DOCX'') \<and> CHR ''/'' \<notin> set ''Q3 Report (final).DOCX''
   \<and> ''Q3 Report (final).DOCX'' = strip_extension ''Q3 Report (final).DOCX'' @ extname ''Q3 Report (final).DOCX''
   \<and> '' ('' \<noteq> [] \<and> list_all (\<lambda>c. \<not> is_lower_alnum c) '' ('' \<and> is_lower_alnum (hd ''final)'')
   \<and> replace_non_alnum_runs ('' ('' @ ''final)'') = CHR ''-'' # replace_non_alnum_runs ''final)''
   \<and> is_lower_alnum CHR ''q''
   \<and> replace_non_alnum_runs ''q3'' = CHR ''q'' # replace_non_alnum_runs ''3''
   \<and> map nav_entry (filter nav_eligible example_classified)
        = [(''q3-report-final-'', ''Q3 Report (final)''), (''read-me'', ''read_me'')]
   \<and> metaTs example_classified = unlines
       [''export default {'',
        ''  index: 'Overview','',
        ''  'q3-report-final-': 'Q3 Report (final)','',
        ''  'read-me': 'read_me','',
        ''  appendix: 'Downloads & Appendix','',
        ''}'']"
proof -
  have h1: "''DOCX'' \<noteq> [] \<and> CHR ''.'' \<notin> set ''DOCX'' \<and> CHR ''/'' \<notin> set ''DOCX''" by simp
  have h2: "nav_eligible (classifyFile ''Q3 Report (final).DOCX'') \<and> CHR ''/'' \<notin> set ''Q3 Report (final).DOCX''"
    by code_simp
  have h3: "'' ('' \<noteq> [] \<and> list_all (\<lambda>c. \<not> is_lower_alnum c) '' ('' \<and> (''final)'' = [] \<or> is_lower_alnum (hd ''final)''))"
    by code_simp
  have h4: "is_lower_alnum CHR ''q''" by code_simp
  have el: "filter nav_eligible example_classified
      = [classifyFile ''Q3 Report (final).DOCX'', classifyFile ''read_me.md'']"
    by code_simp
  have en: "map nav_entry [classifyFile ''Q3 Report (final).DOCX'', classifyFile ''read_me.md'']
      = [(''q3-report-final-'', ''Q3 Report (final)''), (''read-me'', ''read_me'')]"
    by code_simp
  have re: "map render_entry [(''q3-report-final-'', ''Q3 Report (final)''), (''read-me'', ''read_me'')]
      = [''  'q3-report-final-': 'Q3 Report (final)','', ''  'read-me': 'read_me','']"
    by code_simp
  note t = navigation_manifest [where cl = example_classified and e = "''DOCX''" and b = "''Q3 Report (final)''"
      and fl = "''Q3 Report (final).DOCX''" and r = "'' (''" and t = "''final)''" and c = "CHR ''q''"]
  from t h1 have a1: "strip_extension (''Q3 Report (final)'' @ CHR ''.'' # ''DOCX'') = ''Q3 Report (final)''" by blast
  from t h2 have a2: "''Q3 Report (final).DOCX'' = strip_extension ''Q3 Report (final).DOCX'' @ extname ''Q3 Report (final).DOCX''"
    by blast
  from t h3 have a3: "replace_non_alnum_runs ('' ('' @ ''final)'') = CHR ''-'' # replace_non_alnum_runs ''final)''" by blast
  from t have "metaTs example_classified = unlines ([''export default {'', ''  index: 'Overview','']
       @ (if filter nav_eligible example_classified = [] then [ [] ]
          else map (\<lambda>f. render_entry (nav_entry f)) (filter nav_eligible example_classified))
       @ [''  appendix: 'Downloads & Appendix','', ''}''])" by blast
  then have a5: "metaTs example_classified = unlines
       [''export default {'',
        ''  index: 'Overview','',
        ''  'q3-report-final-': 'Q3 Report (final)','',
        ''  'read-me': 'read_me','',
        ''  appendix: 'Downloads & Appendix','',
        ''}'']"
    using en re unfolding el by (simp del: map_map add: map_map [symmetric])
  from navigation_manifest [where c = "CHR ''q''" and t = "''3''"] h4
  have a6: "replace_non_alnum_runs ''q3'' = CHR ''q'' # replace_non_alnum_runs ''3''" by simp
  from h1 h2 h3 h4 a1 a2 a3 a5 a6 en el show ?thesis by simp
qed

text \<open>
  C10. The key of the navigation manifest is not injective on the files that get an entry:
  \<open>Team Notes.md\<close> and \<open>team_notes.docx\<close> are both listed and both get the key
  \<open>team-notes\<close>. The manifest for the two files has the key twice, and in the object it
  denotes the later entry has replaced the earlier one.
\<close>

theorem nav_slug_collision:
  "''Team Notes.md'' \<noteq> ''team_notes.docx''
   \<and> nav_eligible (classifyFile ''Team Notes.md'') \<and> nav_eligible (classifyFile ''team_notes.docx'')
   \<and> nav_slug ''Team Notes.md'' = ''team-notes'' \<and> nav_slug ''team_notes.docx'' = ''team-notes''
   \<and> \<not> inj_on nav_slug {f. nav_eligible (classifyFile f)}
   \<and> map nav_entry (map classifyFile [''Team Notes.md'', ''team_notes.docx''])
       = [(''team-notes'', ''Team Notes''), (''team-notes'', ''team_notes'')]
   \<and> metaTs (map classifyFile [''Team Notes.md'', ''team_notes.docx'']) = unlines
       [''export default {'',
        ''  index: 'Overview','',
        ''  'team-notes': 'Team Notes','',
        ''  'team-notes': 'team_notes','',
        ''  appendix: 'Downloads & Appendix','',
        ''}'']
   \<and> object_literal (map nav_entry (map classifyFile [''Team Notes.md'', ''team_notes.docx''])) ''team-notes''
       = Some ''team_notes''"
proof -
  have d: "''Team Notes.md'' \<noteq> ''team_notes.docx''" by simp
  have e1: "nav_eligible (classifyFile ''Team Notes.md'')" by code_simp
  have e2: "nav_eligible (classifyFile ''team_notes.docx'')" by code_simp
  have s1: "nav_slug ''Team Notes.md'' = ''team-notes''" by code_simp
  have s2: "nav_slug ''team_notes.docx'' = ''team-notes''" by code_simp
  have ni: "\<not> inj_on nav_slug {f. nav_eligible (classifyFile f)}"
  proof
    assume "inj_on nav_slug {f. nav_eligible (classifyFile f)}"
    moreover have "''Team Notes.md'' \<in> {f. nav_eligible (classifyFile f)}"
      and "''team_notes.docx'' \<in> {f. nav_eligible (classifyFile f)}" using e1 e2 by simp_all
    moreover have "nav_slug ''Team Notes.md'' = nav_slug ''team_notes.docx''" using s1 s2 by simp
    ultimately have "''Team Notes.md'' = ''team_notes.docx''" by (meson inj_onD)
    with d show False by simp
  qed
  have en: "map nav_entry (map classifyFile [''Team Notes.md'', ''team_notes.docx''])
       = [(''team-notes'', ''Team Notes''), (''team-notes'', ''team_notes'')]" by code_simp
  have mt: "metaTs (map classifyFile [''Team Notes.md'', ''team_notes.docx'']) = unlines
       [''export default {'',
        ''  index: 'Overview','',
        ''  'team-notes': 'Team Notes','',
        ''  'team-notes': 'team_notes','',
        ''  appendix: 'Downloads & Appendix','',
        ''}'']" by code_simp
  have ob: "object_literal [(''team-notes'', ''Team Notes''), (''team-notes'', ''team_notes'')] ''team-notes''
       = Some ''team_notes''" by (simp add: object_literal_def)
  from d e1 e2 s1 s2 ni mt ob show ?thesis unfolding en by simp
qed

lemma run_rows:
  assumes "pipeline dash a clock st = Inr r"
  shows "index_mdx (run_store r) = Some (unlines (index_header dash (run_metadata r)
            @ [index_rows (map classifyFile (listing (raw st)))]
            @ index_footer (driveFolder (run_metadata r)) (clock 3)))"
    and "appendix_mdx (run_store r) = Some (unlines (appendix_header (run_metadata r)
            @ [appendix_rows (SLUG (the (arg_slug a))) (map classifyFile (listing (raw st)))]
            @ appendix_footer (clock 4)))"
proof -
  note p = pipeline_result [OF assms]
  have d: "driveFolder (run_metadata r) = amended_drive_id (the (arg_drive a))"
    by (subst p(2)) (simp add: generateMetadata_def)
  show "index_mdx (run_store r) = Some (unlines (index_header dash (run_metadata r)
            @ [index_rows (map classifyFile (listing (raw st)))]
            @ index_footer (driveFolder (run_metadata r)) (clock 3)))"
    unfolding p(4) d indexMdx_def p(1) ..
  show "appendix_mdx (run_store r) = Some (unlines (appendix_header (run_metadata r)
            @ [appendix_rows (SLUG (the (arg_slug a))) (map classifyFile (listing (raw st)))]
            @ appendix_footer (clock 4)))"
    unfolding p(6) appendixMdx_def p(1) ..
qed

text \<open>
  C5. Two runs that complete, over the same listing of the path \<open>raw\<close> and with the same
  \<open>--slug\<close> and \<open>--visibility\<close>, have the same classification, and their index pages and
  appendix pages hold the same table rows between a header and a footer; the metadata of
  the second run is that of the first but for the time stamps and the Drive id, so the
  pages differ at most there.
\<close>

theorem regeneration_determinism:
  assumes "pipeline dash a1 clock1 st1 = Inr r1" and "pipeline dash a2 clock2 st2 = Inr r2"
    and "listing (raw st1) = listing (raw st2)"
    and "arg_slug a1 = arg_slug a2" and "arg_visibility a1 = arg_visibility a2"
  shows "run_classified r1 = run_classified r2
    \<and> index_mdx (run_store r1) = Some (unlines (index_header dash (run_metadata r1)
          @ [index_rows (run_classified r1)] @ index_footer (driveFolder (run_metadata r1)) (clock1 3)))
    \<and> index_mdx (run_store r2) = Some (unlines (index_header dash (run_metadata r2)
          @ [index_rows (run_classified r1)] @ index_footer (driveFolder (run_metadata r2)) (clock2 3)))
    \<and> appendix_mdx (run_store r1) = Some (unlines (appendix_header (run_metadata r1)
          @ [appendix_rows (slug (run_metadata r1)) (run_classified r1)] @ appendix_footer (clock1 4)))
    \<and> appendix_mdx (run_store r2) = Some (unlines (appendix_header (run_metadata r2)
          @ [appendix_rows (slug (run_metadata r1)) (run_classified r1)] @ appendix_footer (clock2 4)))
    \<and> run_metadata r2 = (run_metadata r1)\<lparr>createdAt := clock2 1, updatedAt := clock2 2,
          driveFolder := driveFolder (run_metadata r2)\<rparr>"
proof -
  note p1 = pipeline_result [OF assms(1)] and p2 = pipeline_result [OF assms(2)]
  have c: "run_classified r1 = run_classified r2" using p1(1) p2(1) assms(3) by simp
  have c1: "run_classified r1 = map classifyFile (listing (raw st1))" by (rule p1(1))
  have s1: "slug (run_metadata r1) = SLUG (the (arg_slug a1))"
    by (subst p1(2)) (simp add: generateMetadata_def)
  have m: "run_metadata r2 = (run_metadata r1)\<lparr>createdAt := clock2 1, updatedAt := clock2 2,
          driveFolder := driveFolder (run_metadata r2)\<rparr>"
    by (subst (1 2) p2(2), subst p1(2)) (simp add: generateMetadata_def c assms(4,5))
  show ?thesis
    using c m run_rows [OF assms(1)] run_rows [OF assms(2)]
    unfolding c1 s1 assms(3) assms(4) by simp
qed

theorem regeneration_determinism_witness:
  "pipeline ''-'' example_args example_clock example_store
     = Inr (projr (pipeline ''-'' example_args example_clock example_store))
   \<and> pipeline ''-'' example_args later_clock example_store
     = Inr (projr (pipeline ''-'' example_args later_clock example_store))
   \<and> run_classified (projr (pipeline ''-'' example_args example_clock example_store))
     = run_classified (projr (pipeline ''-'' example_args later_clock example_store))
   \<and> index_rows (run_classified (projr (pipeline ''-'' example_args example_clock example_store)))
     = ''| Executive-Summary.pdf | overview | pdf |\<newline>| Financial-Model.xlsx | financials | spreadsheet |\<newline>| random-notes.txt | appendix | markdown |''
   \<and> updatedAt (run_metadata (projr (pipeline ''-'' example_args example_clock example_store)))
     \<noteq> updatedAt (run_metadata (projr (pipeline ''-'' example_args later_clock example_store)))"
proof -
  let ?r1 = "projr (pipeline ''-'' example_args example_clock example_store)"
  let ?r2 = "projr (pipeline ''-'' example_args later_clock example_store)"
  have nd: "raw example_store \<noteq> NotADirectory" by (simp add: example_store_def)
  have run1: "pipeline ''-'' example_args example_clock example_store = Inr ?r1"
    using nd by (rule example_run_completes)
  have run2: "pipeline ''-'' example_args later_clock example_store = Inr ?r2"
    using nd by (rule example_run_completes)
  from regeneration_determinism [OF run1 run2 refl refl refl]
  have c: "run_classified ?r1 = run_classified ?r2"
    and m: "run_metadata ?r2 = (run_metadata ?r1)\<lparr>createdAt := later_clock 1, updatedAt := later_clock 2,
          driveFolder := driveFolder (run_metadata ?r2)\<rparr>" by blast+
  have u1: "updatedAt (run_metadata ?r1) = example_clock 2"
    by (subst pipeline_result(2) [OF run1]) (simp add: generateMetadata_def)
  have u2: "updatedAt (run_metadata ?r2) = later_clock 2" by (subst m) simp
  have ne: "example_clock 2 \<noteq> later_clock 2" by code_simp
  have cl: "run_classified ?r1 = map classifyFile [''Executive-Summary.pdf'', ''Financial-Model.xlsx'', ''random-notes.txt'']"
    by (subst pipeline_result(1) [OF run1]) (simp add: example_store_def listing_def)
  have rows: "index_rows (map classifyFile [''Executive-Summary.pdf'', ''Financial-Model.xlsx'', ''random-notes.txt''])
     = ''| Executive-Summary.pdf | overview | pdf |\<newline>| Financial-Model.xlsx | financials | spreadsheet |\<newline>| random-notes.txt | appendix | markdown |''"
    by code_simp
  from run1 run2 c u1 u2 ne rows show ?thesis unfolding cl by simp
qed

section \<open>Properties of the sync watcher\<close>

lemma any_newer_Inr: "any_newer fls t = Inr b \<Longrightarrow> b = list_ex (stat_newer t) fls"
  by (induction fls t rule: any_newer.induct)
     (auto simp: stat_newer_def newer_than_def split: option.splits if_splits)

lemma any_newer_total:
  "list_all (\<lambda>entry. snd entry \<noteq> None) fls \<Longrightarrow> any_newer fls t = Inr (list_ex (stat_newer t) fls)"
  by (induction fls t rule: any_newer.induct)
     (auto simp: stat_newer_def newer_than_def split: option.splits if_splits)

lemma checkForChanges_Inr:
  "checkForChanges raws p = Inr b \<Longrightarrow> b = has_newer_file raws p"
  by (cases "raws (p_slug p)")
     (auto simp: checkForChanges_def Let_def existsSync_def has_newer_file_def listing_def
           dest: any_newer_Inr)

lemma checkForChanges_total:
  "raw_readable (raws (p_slug p)) \<Longrightarrow> checkForChanges raws p = Inr (has_newer_file raws p)"
  by (cases "raws (p_slug p)")
     (auto simp: checkForChanges_def Let_def existsSync_def has_newer_file_def listing_def
           raw_readable_def any_newer_total)

lemma same_files_refl: "same_files raws raws"
  by (simp add: same_files_def)

lemma same_files_check:
  "same_files raws0 raws \<Longrightarrow> checkForChanges raws p = checkForChanges raws0 p"
proof -
  assume "same_files raws0 raws"
  then have "raws (p_slug p) = raws0 (p_slug p) \<or> (raws0 (p_slug p) = Missing \<and> raws (p_slug p) = Directory [])"
    by (simp add: same_files_def)
  then show ?thesis
    by (auto simp: checkForChanges_def Let_def existsSync_def)
qed

lemma same_files_sync: "same_files raws0 raws \<Longrightarrow> same_files raws0 (syncProject p raws)"
  unfolding same_files_def syncProject_def mkdir_raw_def
  by (auto split: dir.splits) (metis dir.distinct dir.inject)+

lemma sync_loop_Inr:
  "same_files raws0 raws \<Longrightarrow> sync_loop ps raws = Inr (synced, raws')
   \<Longrightarrow> synced = filter (has_newer_file raws0) ps \<and> same_files raws0 raws'"
proof (induction ps arbitrary: raws synced raws')
  case Nil
  then show ?case by simp
next
  case (Cons p ps)
  from Cons.prems(2) obtain changed where ch: "checkForChanges raws p = Inr changed"
    by (cases "checkForChanges raws p") auto
  then have "checkForChanges raws0 p = Inr changed" using same_files_check [OF Cons.prems(1)] by simp
  then have hn: "changed = has_newer_file raws0 p" by (rule checkForChanges_Inr)
  show ?case
  proof (cases changed)
    case True
    with Cons.prems(2) ch obtain synced' where
      1: "sync_loop ps (syncProject p raws) = Inr (synced', raws')" and 2: "synced = p # synced'"
      by (auto split: sum.splits)
    from Cons.IH [OF same_files_sync [OF Cons.prems(1)] 1] 2 True hn show ?thesis by simp
  next
    case False
    with Cons.prems(2) ch have "sync_loop ps raws = Inr (synced, raws')" by simp
    from Cons.IH [OF Cons.prems(1) this] False hn show ?thesis by simp
  qed
qed

lemma sync_loop_total:
  "same_files raws0 raws \<Longrightarrow> list_all (\<lambda>p. raw_readable (raws0 (p_slug p))) ps
   \<Longrightarrow> \<exists>raws'. sync_loop ps raws = Inr (filter (has_newer_file raws0) ps, raws')"
proof (induction ps arbitrary: raws)
  case Nil
  then show ?case by simp
next
  case (Cons p ps)
  from Cons.prems(2) have rp: "raw_readable (raws0 (p_slug p))"
    and rest: "list_all (\<lambda>p. raw_readable (raws0 (p_slug p))) ps" by simp_all
  have ch: "checkForChanges raws p = Inr (has_newer_file raws0 p)"
    using same_files_check [OF Cons.prems(1)] checkForChanges_total [of raws0 p] rp by simp
  show ?case
  proof (cases "has_newer_file raws0 p")
    case True
    from Cons.IH [OF same_files_sync [OF Cons.prems(1)] rest]
    obtain raws' where "sync_loop ps (syncProject p raws) = Inr (filter (has_newer_file raws0) ps, raws')"
      by blast
    with ch True show ?thesis by simp
  next
    case False
    from Cons.IH [OF Cons.prems(1) rest]
    obtain raws' where "sync_loop ps raws = Inr (filter (has_newer_file raws0) ps, raws')" by blast
    with ch False show ?thesis by simp
  qed
qed

lemma map_throw_Inr:
  "map_throw (read_project fs) ds = Inr ps \<Longrightarrow>
   ps = concat (map (\<lambda>d. case metadata_file fs d of Parsed meta \<Rightarrow> [spread_project d meta] | _ \<Rightarrow> []) ds)"
  by (induction ds arbitrary: ps)
     (auto simp: read_project_def split: sum.splits meta_file.splits)

lemma map_throw_total:
  "list_all (\<lambda>d. metadata_file fs d \<noteq> Unparsable) ds \<Longrightarrow>
   map_throw (read_project fs) (filter (\<lambda>d. metadata_file fs d \<noteq> NoFile) ds)
     = Inr (concat (map (\<lambda>d. case metadata_file fs d of Parsed meta \<Rightarrow> [spread_project d meta] | _ \<Rightarrow> []) ds))"
  by (induction ds) (auto simp: read_project_def split: meta_file.splits)

lemma concat_filter_NoFile:
  "concat (map (\<lambda>d. case metadata_file fs d of Parsed meta \<Rightarrow> [spread_project d meta] | _ \<Rightarrow> [])
      (filter (\<lambda>d. metadata_file fs d \<noteq> NoFile) ds))
   = concat (map (\<lambda>d. case metadata_file fs d of Parsed meta \<Rightarrow> [spread_project d meta] | _ \<Rightarrow> []) ds)"
  by (induction ds) auto

lemma getProjects_Inr: "getProjectsWithDrive fs = Inr ps \<Longrightarrow> ps = drive_projects fs"
  by (cases "projects_dir fs")
     (auto simp: getProjectsWithDrive_def existsSync_def drive_projects_def listing_def
           concat_filter_NoFile split: sum.splits dest!: map_throw_Inr)

lemma getProjects_total:
  "projects_dir fs \<noteq> NotADirectory \<Longrightarrow>
   list_all (\<lambda>d. metadata_file fs d \<noteq> Unparsable) (listing (projects_dir fs)) \<Longrightarrow>
   getProjectsWithDrive fs = Inr (drive_projects fs)"
  by (cases "projects_dir fs")
     (auto simp: getProjectsWithDrive_def existsSync_def drive_projects_def listing_def map_throw_total)

text \<open>
  C4, as the specification words it, fails when a read of the cycle throws: the project
  below declares a Drive reference and has a file newer than its \<open>updatedAt\<close>, but the
  status of an entry listed before that file cannot be read, \<open>checkForChanges\<close> throws and
  the cycle ends without a sync.
\<close>

theorem watcher_tick_counterexample:
  "getProjectsWithDrive broken_fs
     = Inr [\<lparr>p_slug = ''alpha'', p_updatedAt = Some 1000, p_driveFolder = Some ''D1'',
              p_visibility = Some ''investor''\<rparr>]
   \<and> has_newer_file (raw_path broken_fs)
        \<lparr>p_slug = ''alpha'', p_updatedAt = Some 1000, p_driveFolder = Some ''D1'',
          p_visibility = Some ''investor''\<rparr>
   \<and> runSyncCycle broken_fs = Inl ENOENT"
proof -
  have g: "getProjectsWithDrive broken_fs
     = Inr [\<lparr>p_slug = ''alpha'', p_updatedAt = Some 1000, p_driveFolder = Some ''D1'',
              p_visibility = Some ''investor''\<rparr>]"
    by (simp add: getProjectsWithDrive_def broken_fs_def existsSync_def read_project_def
        spread_project_def falsy_def)
  have h: "has_newer_file (raw_path broken_fs)
        \<lparr>p_slug = ''alpha'', p_updatedAt = Some 1000, p_driveFolder = Some ''D1'',
          p_visibility = Some ''investor''\<rparr>"
    by (simp add: has_newer_file_def broken_fs_def listing_def stat_newer_def)
  have r: "runSyncCycle broken_fs = Inl ENOENT"
    unfolding runSyncCycle_def g
    by (simp add: checkForChanges_def broken_fs_def existsSync_def Let_def)
  from g h r show ?thesis by simp
qed

lemma tick_fs_projects:
  "drive_projects tick_fs =
     [\<lparr>p_slug = ''alpha'', p_updatedAt = Some 1000, p_driveFolder = Some ''D1'', p_visibility = Some ''investor''\<rparr>,
      \<lparr>p_slug = ''beta'', p_updatedAt = Some 1000, p_driveFolder = Some ''D2'', p_visibility = Some ''public''\<rparr>,
      \<lparr>p_slug = ''gamma'', p_updatedAt = Some 1000, p_driveFolder = Some ''D3'', p_visibility = None\<rparr>]"
  by (simp add: drive_projects_def tick_fs_def listing_def spread_project_def falsy_def)

text \<open>
  C4, amended. In a cycle whose reads succeed, \<open>syncProject\<close> is called for exactly the
  projects that declare a Drive reference and have an entry in their path \<open>raw\<close> whose
  modification time is strictly greater than the recorded \<open>updatedAt\<close>, once each and in the
  order of the listing; whenever the cycle returns, these are the projects it has synced.
  A project whose path \<open>raw\<close> is missing has no such entry.
\<close>

theorem watcher_tick:
  "(reads_succeed fs \<longrightarrow>
      (\<exists>raws'. runSyncCycle fs = Inr (filter (has_newer_file (raw_path fs)) (drive_projects fs), raws')))
   \<and> (runSyncCycle fs = Inr (synced, raws') \<longrightarrow>
        synced = filter (has_newer_file (raw_path fs)) (drive_projects fs))
   \<and> (raw_path fs (p_slug p) = Missing \<longrightarrow> \<not> has_newer_file (raw_path fs) p)"
proof (intro conjI impI)
  assume "reads_succeed fs"
  then have g: "getProjectsWithDrive fs = Inr (drive_projects fs)"
    and r: "list_all (\<lambda>p. raw_readable (raw_path fs (p_slug p))) (drive_projects fs)"
    by (simp_all add: reads_succeed_def getProjects_total)
  from sync_loop_total [OF same_files_refl r] g
  show "\<exists>raws'. runSyncCycle fs = Inr (filter (has_newer_file (raw_path fs)) (drive_projects fs), raws')"
    by (simp add: runSyncCycle_def)
next
  assume a: "runSyncCycle fs = Inr (synced, raws')"
  then obtain ps where g: "getProjectsWithDrive fs = Inr ps" and l: "sync_loop ps (raw_path fs) = Inr (synced, raws')"
    by (auto simp: runSyncCycle_def split: sum.splits)
  from getProjects_Inr [OF g] sync_loop_Inr [OF same_files_refl l]
  show "synced = filter (has_newer_file (raw_path fs)) (drive_projects fs)" by simp
next
  assume "raw_path fs (p_slug p) = Missing"
  then show "\<not> has_newer_file (raw_path fs) p" by (simp add: has_newer_file_def listing_def)
qed

theorem watcher_tick_witness:
  "reads_succeed tick_fs
   \<and> map p_slug (drive_projects tick_fs) = [''alpha'', ''beta'', ''gamma'']
   \<and> \<not> isl (runSyncCycle tick_fs)
   \<and> map p_slug (fst (projr (runSyncCycle tick_fs))) = [''beta'']
   \<and> raw_path tick_fs ''gamma'' = Missing"
proof -
  have rs: "reads_succeed tick_fs"
    unfolding reads_succeed_def tick_fs_projects
    by (simp add: tick_fs_def listing_def raw_readable_def del: not_None_eq)
  have f: "filter (has_newer_file (raw_path tick_fs)) (drive_projects tick_fs) =
     [\<lparr>p_slug = ''beta'', p_updatedAt = Some 1000, p_driveFolder = Some ''D2'', p_visibility = Some ''public''\<rparr>]"
    unfolding tick_fs_projects
    by (simp add: has_newer_file_def tick_fs_def listing_def stat_newer_def)
  from watcher_tick [of tick_fs] rs obtain raws' where
    "runSyncCycle tick_fs = Inr (filter (has_newer_file (raw_path tick_fs)) (drive_projects tick_fs), raws')"
    by blast
  then have "\<not> isl (runSyncCycle tick_fs)" and "map p_slug (fst (projr (runSyncCycle tick_fs))) = [''beta'']"
    unfolding f by simp_all
  moreover have "raw_path tick_fs ''gamma'' = Missing" by (simp add: tick_fs_def)
  moreover have "map p_slug (drive_projects tick_fs) = [''alpha'', ''beta'', ''gamma'']"
    unfolding tick_fs_projects by simp
  ultimately show ?thesis using rs by simp
qed


end
